theory Spec2Isabelle
  imports Complex_Main
begin

section \<open>Rein: the trackpad gesture interpreter and the modifier key buffer\<close>

text \<open>
  A shallow embedding of \<^verbatim>\<open>useTrackpadGesture\<close> (the touch gesture hook, with
  \<^verbatim>\<open>getClientSettings\<close>) and of the modifier handlers of \<^verbatim>\<open>TrackpadPage\<close>.

  Conventions of the embedding:
  \<^item> a JavaScript number that comes from a touch event (a coordinate, a time stamp) is a
    \<^typ>\<open>real\<close>: rounding and overflow of doubles are not modelled;
  \<^item> a number that is parsed from a stored string can also be \<open>NaN\<close> or an infinity,
    so the sensitivity and the magnitudes computed from it are of the type \<open>jsnum\<close>;
  \<^item> a JavaScript string is a \<^typ>\<open>string\<close>, each \<^typ>\<open>char\<close> standing for one
    UTF-16 code unit below 256;
  \<^item> every handler takes the state of the refs of the hook and returns the new state
    together with the list of the messages it passed to \<^verbatim>\<open>send\<close>, in order;
  \<^item> the timeout the hook schedules is kept in the state, with its handle and delay, and
    fires as an event of its own; time itself is not modelled;
  \<^item> the constants and the acceleration function of \<^verbatim>\<open>utils/math\<close> are parameters,
    collected in the record \<open>MathConsts\<close>;
  \<^item> names are those of the source, but \<open>eventTimeStamp\<close> for the \<^verbatim>\<open>timeStamp\<close> of an
    event (a tracked touch has a \<^verbatim>\<open>timeStamp\<close> too) and \<open>distance\<close> for the local
    \<^verbatim>\<open>dist\<close>.
\<close>

subsection \<open>Numbers and the built-in \<^verbatim>\<open>Number\<close>\<close>

datatype jsnum = NaN | Infinity bool | Num real

text \<open>\<open>Infinity True\<close> is \<open>+Infinity\<close>, \<open>Infinity False\<close> is \<open>-Infinity\<close>.\<close>

fun js_times :: "jsnum \<Rightarrow> jsnum \<Rightarrow> jsnum" where
  "js_times (Num a) (Num b) = Num (a * b)"
| "js_times (Num a) (Infinity q) = (if a = 0 then NaN else Infinity (q = (0 < a)))"
| "js_times (Infinity p) (Num b) = (if b = 0 then NaN else Infinity (p = (0 < b)))"
| "js_times (Infinity p) (Infinity q) = Infinity (p = q)"
| "js_times NaN y = NaN"
| "js_times x NaN = NaN"

definition isNaN :: "jsnum \<Rightarrow> bool" where
  "isNaN x = (x = NaN)"

definition isStrWhiteSpaceChar :: "char \<Rightarrow> bool" where
  "isStrWhiteSpaceChar ch = ((of_char ch :: nat) \<in> {9, 10, 11, 12, 13, 32, 160})"

definition trimString :: "string \<Rightarrow> string" where
  "trimString str = rev (dropWhile isStrWhiteSpaceChar (rev (dropWhile isStrWhiteSpaceChar str)))"

definition digitValue :: "char \<Rightarrow> nat option" where
  "digitValue ch =
     (let n = (of_char ch :: nat) in
      if 48 \<le> n \<and> n \<le> 57 then Some (n - 48)
      else if 97 \<le> n \<and> n \<le> 102 then Some (n - 87)
      else if 65 \<le> n \<and> n \<le> 70 then Some (n - 55)
      else None)"

fun digitsValueAcc :: "nat \<Rightarrow> nat \<Rightarrow> string \<Rightarrow> nat option" where
  "digitsValueAcc base acc [] = Some acc"
| "digitsValueAcc base acc (ch # rest) =
     (case digitValue ch of
        None \<Rightarrow> None
      | Some d \<Rightarrow> if d < base then digitsValueAcc base (acc * base + d) rest else None)"

text \<open>The value of a non-empty run of digits in the given base; \<open>None\<close> when the string is
  empty or holds another character.\<close>

definition digitsValue :: "nat \<Rightarrow> string \<Rightarrow> nat option" where
  "digitsValue base str = (if str = [] then None else digitsValueAcc base 0 str)"

definition isExponentIndicator :: "char \<Rightarrow> bool" where
  "isExponentIndicator ch = (ch = CHR ''e'' \<or> ch = CHR ''E'')"

text \<open>\<open>ExponentPart\<close> without its indicator: an optional sign and decimal digits.\<close>

definition signedInteger :: "string \<Rightarrow> int option" where
  "signedInteger str =
     (case str of
        [] \<Rightarrow> None
      | ch # rest \<Rightarrow>
          if ch = CHR ''+'' then map_option int (digitsValue 10 rest)
          else if ch = CHR ''-'' then map_option (\<lambda>n. - int n) (digitsValue 10 rest)
          else map_option int (digitsValue 10 str))"

definition scaleByPowerOfTen :: "real \<Rightarrow> int \<Rightarrow> real" where
  "scaleByPowerOfTen m ex = (if 0 \<le> ex then m * 10 ^ nat ex else m / 10 ^ nat (- ex))"

text \<open>The digits before and after the decimal point: \<open>DecimalDigits . DecimalDigits?\<close>,
  \<open>. DecimalDigits\<close> or \<open>DecimalDigits\<close>.\<close>

definition decimalMantissa :: "string \<Rightarrow> real option" where
  "decimalMantissa str =
     (let ip = takeWhile (\<lambda>ch. ch \<noteq> CHR ''.'') str;
          rest = dropWhile (\<lambda>ch. ch \<noteq> CHR ''.'') str
      in case rest of
           [] \<Rightarrow> map_option real (digitsValue 10 ip)
         | dot # fp \<Rightarrow>
             if ip = [] then map_option (\<lambda>f. real f / 10 ^ length fp) (digitsValue 10 fp)
             else if fp = [] then map_option real (digitsValue 10 ip)
             else (case (digitsValue 10 ip, digitsValue 10 fp) of
                     (Some i, Some f) \<Rightarrow> Some (real i + real f / 10 ^ length fp)
                   | _ \<Rightarrow> None))"

definition strUnsignedDecimalLiteral :: "string \<Rightarrow> jsnum" where
  "strUnsignedDecimalLiteral str =
     (if str = ''Infinity'' then Infinity True
      else
        (let m = takeWhile (\<lambda>ch. \<not> isExponentIndicator ch) str;
             rest = dropWhile (\<lambda>ch. \<not> isExponentIndicator ch) str
         in case rest of
              [] \<Rightarrow> (case decimalMantissa m of None \<Rightarrow> NaN | Some v \<Rightarrow> Num v)
            | ei # ex \<Rightarrow>
                (case (decimalMantissa m, signedInteger ex) of
                   (Some v, Some k) \<Rightarrow> Num (scaleByPowerOfTen v k)
                 | _ \<Rightarrow> NaN)))"

definition js_negate :: "jsnum \<Rightarrow> jsnum" where
  "js_negate x = (case x of NaN \<Rightarrow> NaN | Infinity p \<Rightarrow> Infinity (\<not> p) | Num v \<Rightarrow> Num (- v))"

definition nonDecimalIntegerLiteral :: "string \<Rightarrow> jsnum option" where
  "nonDecimalIntegerLiteral str =
     (case str of
        z # p # ds \<Rightarrow>
          if z \<noteq> CHR ''0'' then None
          else if p = CHR ''x'' \<or> p = CHR ''X''
            then Some (case digitsValue 16 ds of None \<Rightarrow> NaN | Some n \<Rightarrow> Num (real n))
          else if p = CHR ''o'' \<or> p = CHR ''O''
            then Some (case digitsValue 8 ds of None \<Rightarrow> NaN | Some n \<Rightarrow> Num (real n))
          else if p = CHR ''b'' \<or> p = CHR ''B''
            then Some (case digitsValue 2 ds of None \<Rightarrow> NaN | Some n \<Rightarrow> Num (real n))
          else None
      | _ \<Rightarrow> None)"

text \<open>
  \<^verbatim>\<open>Number(s)\<close> on a string, after the \<open>StringToNumber\<close> grammar of ECMAScript: white
  space is trimmed, the empty string is 0, then a binary, octal or hexadecimal integer or
  a signed decimal literal is read; anything else is \<open>NaN\<close>. The value is the exact real
  the literal denotes: it is not rounded to a double, so a literal beyond the range of
  the doubles, which the code reads as an infinity or as 0, keeps its value here. The
  only infinities are those of the literal \<open>Infinity\<close>.
\<close>

definition Number :: "string \<Rightarrow> jsnum" where
  "Number s =
     (let str = trimString s in
      if str = [] then Num 0
      else case nonDecimalIntegerLiteral str of
             Some v \<Rightarrow> v
           | None \<Rightarrow>
               (case str of
                  [] \<Rightarrow> NaN
                | ch # rest \<Rightarrow>
                    if ch = CHR ''+'' then strUnsignedDecimalLiteral rest
                    else if ch = CHR ''-'' then js_negate (strUnsignedDecimalLiteral rest)
                    else strUnsignedDecimalLiteral str))"

subsection \<open>Client settings\<close>

text \<open>\<^verbatim>\<open>localStorage\<close>: \<open>None\<close> when \<^verbatim>\<open>typeof localStorage === 'undefined'\<close>,
  otherwise the stored items; \<^verbatim>\<open>getItem\<close> of a missing key is \<^verbatim>\<open>null\<close>.\<close>

type_synonym Storage = "(string \<rightharpoonup> string) option"

definition CLIENT_KEYS_SENSITIVITY :: string where
  "CLIENT_KEYS_SENSITIVITY = ''rein_mouse_sensitivity''"

definition CLIENT_KEYS_INVERT :: string where
  "CLIENT_KEYS_INVERT = ''rein_mouse_invert''"

record ClientSettings =
  sensitivity :: jsnum
  invert :: bool

definition getClientSettings :: "Storage \<Rightarrow> ClientSettings" where
  "getClientSettings localStorage =
     (case localStorage of
        None \<Rightarrow> \<lparr>sensitivity = Num 1.0, invert = False\<rparr>
      | Some getItem \<Rightarrow>
          (let s = getItem CLIENT_KEYS_SENSITIVITY;
               sens = (case s of
                         None \<Rightarrow> Num 1.0
                       | Some str \<Rightarrow> if \<not> isNaN (Number str) then Number str else Num 1.0);
               inv = (getItem CLIENT_KEYS_INVERT = Some ''true'')
           in \<lparr>sensitivity = sens, invert = inv\<rparr>))"

subsection \<open>Touches, the constants of \<^verbatim>\<open>utils/math\<close>, and the state of the hook\<close>

record Touch =
  "identifier" :: int
  pageX :: real
  pageY :: real

record TrackedTouch = Touch +
  pageXStart :: real
  pageYStart :: real
  timeStamp :: real

text \<open>A \<^verbatim>\<open>React.TouchEvent\<close>, as far as the handlers read it.\<close>

record TouchEvent =
  changedTouches :: "Touch list"
  eventTimeStamp :: real

text \<open>The imports from \<^verbatim>\<open>../utils/math\<close>, whose file is not part of the sources at
  hand: every definition below takes them as the parameter \<open>c\<close>.\<close>

record MathConsts =
  TOUCH_MOVE_THRESHOLD :: "real list"
  TOUCH_TIMEOUT :: real
  PINCH_THRESHOLD :: real
  calculateAccelerationMult :: "real \<Rightarrow> real"

datatype Button = left | right | middle

text \<open>The messages passed to \<^verbatim>\<open>send\<close>.\<close>

datatype Action =
    Move jsnum jsnum
  | Scroll jsnum jsnum
  | Zoom jsnum
  | Click Button bool

text \<open>
  The refs and the \<^verbatim>\<open>isTracking\<close> state of the hook. \<open>draggingTimeout\<close> holds the
  handle \<^verbatim>\<open>setTimeout\<close> returned, if any; a handle is a positive number or an object,
  so the test \<^verbatim>\<open>if (draggingTimeout.current)\<close> is the test for \<open>Some\<close>. The last two
  fields are the host's side of the timers: the timeouts that are scheduled and have
  neither fired nor been cleared, each with its handle and its delay in milliseconds, and
  the next fresh handle. Time itself is not modelled: a scheduled timeout fires as an
  event of its own.
\<close>

record GestureState =
  ongoingTouches :: "TrackedTouch list"
  moved :: bool
  startTimeStamp :: real
  lastEndTimeStamp :: real
  releasedCount :: nat
  dragging :: bool
  draggingTimeout :: "nat option"
  lastPinchDist :: "real option"
  pinching :: bool
  isTracking :: bool
  timers :: "(nat \<times> real) list"
  nextTimer :: nat

definition initialState :: GestureState where
  "initialState =
     \<lparr>ongoingTouches = [], moved = False, startTimeStamp = 0, lastEndTimeStamp = 0,
      releasedCount = 0, dragging = False, draggingTimeout = None, lastPinchDist = None,
      pinching = False, isTracking = False, timers = [], nextTimer = 1\<rparr>"

definition setTimeout :: "real \<Rightarrow> GestureState \<Rightarrow> GestureState \<times> nat" where
  "setTimeout delay s =
     (s\<lparr>timers := timers s @ [(nextTimer s, delay)], nextTimer := Suc (nextTimer s)\<rparr>,
      nextTimer s)"

definition clearTimeout :: "nat \<Rightarrow> GestureState \<Rightarrow> GestureState" where
  "clearTimeout h s = s\<lparr>timers := filter (\<lambda>t. fst t \<noteq> h) (timers s)\<rparr>"

subsection \<open>Helpers\<close>

definition getTouchDistance :: "TrackedTouch \<Rightarrow> TrackedTouch \<Rightarrow> real" where
  "getTouchDistance a b =
     (let dx = pageX a - pageX b;
          dy = pageY a - pageY b
      in sqrt (dx * dx + dy * dy))"

text \<open>\<^verbatim>\<open>findIndex\<close>: the first index whose touch has the identifier; \<open>None\<close> for -1.\<close>

fun findTouchIndex :: "TrackedTouch list \<Rightarrow> int \<Rightarrow> nat option" where
  "findTouchIndex [] i = None"
| "findTouchIndex (t # ts) i =
     (if identifier t = i then Some 0 else map_option Suc (findTouchIndex ts i))"

text \<open>An array read: \<^verbatim>\<open>undefined\<close> (\<open>None\<close>) outside the array.\<close>

definition arrayGet :: "'a list \<Rightarrow> int \<Rightarrow> 'a option" where
  "arrayGet xs i = (if 0 \<le> i \<and> i < int (length xs) then Some (xs ! nat i) else None)"

text \<open>\<^verbatim>\<open>dist > threshold\<close>: false when the threshold is \<^verbatim>\<open>undefined\<close>.\<close>

definition exceeds :: "real \<Rightarrow> real option \<Rightarrow> bool" where
  "exceeds d threshold = (case threshold of None \<Rightarrow> False | Some th \<Rightarrow> d > th)"

definition moveThreshold :: "MathConsts \<Rightarrow> nat \<Rightarrow> real option" where
  "moveThreshold c n =
     (if n > length (TOUCH_MOVE_THRESHOLD c)
      then arrayGet (TOUCH_MOVE_THRESHOLD c) (int (length (TOUCH_MOVE_THRESHOLD c)) - 1)
      else arrayGet (TOUCH_MOVE_THRESHOLD c) (int n - 1))"

definition handleDraggingTimeout :: "GestureState \<Rightarrow> GestureState \<times> Action list" where
  "handleDraggingTimeout s = (s\<lparr>draggingTimeout := None\<rparr>, [Click left False])"

subsection \<open>\<^verbatim>\<open>handleTouchStart\<close>\<close>

fun touchStartLoop :: "real \<Rightarrow> Touch list \<Rightarrow> TrackedTouch list \<Rightarrow> TrackedTouch list" where
  "touchStartLoop ts [] ongoing = ongoing"
| "touchStartLoop ts (touch # touches) ongoing =
     (let tracked = \<lparr>identifier = identifier touch, pageX = pageX touch, pageY = pageY touch,
                     pageXStart = pageX touch, pageYStart = pageY touch, timeStamp = ts\<rparr>
      in touchStartLoop ts touches
           (case findTouchIndex ongoing (identifier touch) of
              None \<Rightarrow> ongoing @ [tracked]
            | Some idx \<Rightarrow> ongoing[idx := tracked]))"

definition handleTouchStart :: "GestureState \<Rightarrow> TouchEvent \<Rightarrow> GestureState \<times> Action list" where
  "handleTouchStart s e =
     (let s1 = (if length (ongoingTouches s) = 0
                then s\<lparr>startTimeStamp := eventTimeStamp e, moved := False\<rparr> else s);
          s2 = s1\<lparr>ongoingTouches :=
                    touchStartLoop (eventTimeStamp e) (changedTouches e) (ongoingTouches s1)\<rparr>;
          s3 = (if length (ongoingTouches s2) = 2
                then s2\<lparr>lastPinchDist :=
                           Some (getTouchDistance (ongoingTouches s2 ! 0) (ongoingTouches s2 ! 1)),
                        pinching := False\<rparr>
                else s2);
          s4 = s3\<lparr>isTracking := True, lastEndTimeStamp := 0\<rparr>
      in case draggingTimeout s4 of
           None \<Rightarrow> (s4, [])
         | Some h \<Rightarrow> ((clearTimeout h s4)\<lparr>draggingTimeout := None, dragging := True\<rparr>, []))"

subsection \<open>\<^verbatim>\<open>handleTouchMove\<close>\<close>

text \<open>What the loop over \<^verbatim>\<open>changedTouches\<close> updates: the tracked touches, \<open>moved\<close>,
  \<open>sumX\<close> and \<open>sumY\<close>.\<close>

type_synonym MoveAcc = "TrackedTouch list \<times> bool \<times> real \<times> real"

definition touchMoveBody :: "MathConsts \<Rightarrow> real \<Rightarrow> real \<Rightarrow> Touch \<Rightarrow> MoveAcc \<Rightarrow> MoveAcc" where
  "touchMoveBody c start ts touch acc =
     (case acc of (ongoing, mv, sumX, sumY) \<Rightarrow>
        (case findTouchIndex ongoing (identifier touch) of
           None \<Rightarrow> acc
         | Some idx \<Rightarrow>
             (let tracked = ongoing ! idx;
                  mv' = (if \<not> mv
                         then (let distance = sqrt ((pageX touch - pageXStart tracked)\<^sup>2 +
                                                (pageY touch - pageYStart tracked)\<^sup>2);
                                   threshold = moveThreshold c (length ongoing)
                               in if exceeds distance threshold \<or> ts - start \<ge> TOUCH_TIMEOUT c
                                  then True else mv)
                         else mv);
                  dx = pageX touch - pageX tracked;
                  dy = pageY touch - pageY tracked;
                  timeDelta = ts - timeStamp tracked;
                  sumX' = (if timeDelta > 0
                           then sumX + dx * calculateAccelerationMult c (\<bar>dx\<bar> / timeDelta * 1000)
                           else sumX);
                  sumY' = (if timeDelta > 0
                           then sumY + dy * calculateAccelerationMult c (\<bar>dy\<bar> / timeDelta * 1000)
                           else sumY)
              in (ongoing[idx := tracked\<lparr>pageX := pageX touch, pageY := pageY touch,
                                          timeStamp := ts\<rparr>],
                  mv', sumX', sumY'))))"

fun touchMoveLoop :: "MathConsts \<Rightarrow> real \<Rightarrow> real \<Rightarrow> Touch list \<Rightarrow> MoveAcc \<Rightarrow> MoveAcc" where
  "touchMoveLoop c start ts [] acc = acc"
| "touchMoveLoop c start ts (touch # touches) acc =
     touchMoveLoop c start ts touches (touchMoveBody c start ts touch acc)"

text \<open>The dispatch after the loop, taken when \<open>moved\<close> holds and the debounce is over.\<close>

definition dispatchMove ::
  "MathConsts \<Rightarrow> bool \<Rightarrow> Storage \<Rightarrow> GestureState \<Rightarrow> real \<Rightarrow> real \<Rightarrow> GestureState \<times> Action list" where
  "dispatchMove c scrollMode localStorage s sumX sumY =
     (let settings = getClientSettings localStorage;
          scrollSign = (if invert settings then 1 else - 1 :: real)
      in if \<not> scrollMode \<and> length (ongoingTouches s) = 2 then
           (let distance = getTouchDistance (ongoingTouches s ! 0) (ongoingTouches s ! 1);
                delta = (case lastPinchDist s of Some l \<Rightarrow> distance - l | None \<Rightarrow> 0)
            in if pinching s \<or> \<bar>delta\<bar> > PINCH_THRESHOLD c
               then (s\<lparr>pinching := True, lastPinchDist := Some distance\<rparr>,
                     [Zoom (js_times (Num delta) (sensitivity settings))])
               else (s\<lparr>lastPinchDist := Some distance\<rparr>,
                     [Scroll (js_times (js_times (Num sumX) (sensitivity settings)) (Num scrollSign))
                             (js_times (js_times (Num sumY) (sensitivity settings)) (Num scrollSign))]))
         else if scrollMode then
           (s, [Scroll (js_times (js_times (Num sumX) (sensitivity settings)) (Num scrollSign))
                       (js_times (js_times (Num sumY) (sensitivity settings)) (Num scrollSign))])
         else if length (ongoingTouches s) = 1 \<or> dragging s then
           (s, [Move (js_times (Num sumX) (sensitivity settings))
                     (js_times (Num sumY) (sensitivity settings))])
         else (s, []))"

text \<open>\<open>scrollMode\<close> is the argument of the hook at the render whose handler runs;
  \<open>localStorage\<close> is the storage as it is when the handler runs.\<close>

definition handleTouchMove ::
  "MathConsts \<Rightarrow> bool \<Rightarrow> Storage \<Rightarrow> GestureState \<Rightarrow> TouchEvent \<Rightarrow> GestureState \<times> Action list" where
  "handleTouchMove c scrollMode localStorage s e =
     (case touchMoveLoop c (startTimeStamp s) (eventTimeStamp e) (changedTouches e)
             (ongoingTouches s, moved s, 0, 0) of
        (ongoing, mv, sumX, sumY) \<Rightarrow>
          (let s1 = s\<lparr>ongoingTouches := ongoing, moved := mv\<rparr>
           in if moved s1 \<and> eventTimeStamp e - lastEndTimeStamp s1 \<ge> TOUCH_TIMEOUT c
              then dispatchMove c scrollMode localStorage s1 sumX sumY
              else (s1, [])))"

subsection \<open>\<^verbatim>\<open>handleTouchEnd\<close>\<close>

text \<open>\<^verbatim>\<open>splice(idx, 1)\<close>.\<close>

definition splice1 :: "nat \<Rightarrow> 'a list \<Rightarrow> 'a list" where
  "splice1 idx xs = take idx xs @ drop (Suc idx) xs"

fun touchEndLoop :: "Touch list \<Rightarrow> TrackedTouch list \<times> nat \<Rightarrow> TrackedTouch list \<times> nat" where
  "touchEndLoop [] acc = acc"
| "touchEndLoop (touch # touches) acc =
     touchEndLoop touches
       (case findTouchIndex (fst acc) (identifier touch) of
          None \<Rightarrow> acc
        | Some idx \<Rightarrow> (splice1 idx (fst acc), snd acc + 1))"

definition tapButton :: "nat \<Rightarrow> Button option" where
  "tapButton n = (if n = 1 then Some left else if n = 2 then Some right
                  else if n = 3 then Some middle else None)"

text \<open>The handler, in the three parts its comments mark: the released touches with the
  bookkeeping that follows them, the tap decision, and the block "All fingers lifted".\<close>

definition releaseTouches :: "MathConsts \<Rightarrow> GestureState \<Rightarrow> TouchEvent \<Rightarrow> GestureState" where
  "releaseTouches c s e =
     (let (ongoing, rc) = touchEndLoop (changedTouches e) (ongoingTouches s, releasedCount s);
          s1 = s\<lparr>ongoingTouches := ongoing, releasedCount := rc,
                 lastEndTimeStamp := eventTimeStamp e\<rparr>;
          s2 = (if length (ongoingTouches s1) < 2
                then s1\<lparr>lastPinchDist := None, pinching := False\<rparr> else s1)
      in if releasedCount s2 > length (TOUCH_MOVE_THRESHOLD c)
         then s2\<lparr>moved := True\<rparr> else s2)"

definition tapClick :: "MathConsts \<Rightarrow> GestureState \<Rightarrow> TouchEvent \<Rightarrow> GestureState \<times> Action list" where
  "tapClick c s e =
     (if \<not> moved s \<and> eventTimeStamp e - startTimeStamp s < TOUCH_TIMEOUT c
      then (case tapButton (releasedCount s) of
              None \<Rightarrow> (s, [])
            | Some button \<Rightarrow>
                if button = left
                then (let (s', h) = setTimeout (TOUCH_TIMEOUT c) s
                      in (s'\<lparr>draggingTimeout := Some h\<rparr>, [Click button True]))
                else (s, [Click button True, Click button False]))
      else (s, []))"

definition allFingersLifted ::
  "MathConsts \<Rightarrow> GestureState \<Rightarrow> TouchEvent \<Rightarrow> GestureState \<times> Action list" where
  "allFingersLifted c s e =
     (let s4 = s\<lparr>isTracking := False\<rparr>;
          (s5, out1) = (if dragging s4
                        then (s4\<lparr>dragging := False\<rparr>, [Click left False])
                        else (s4, []));
          (s6, out2) = tapClick c s5 e
      in (s6\<lparr>releasedCount := 0\<rparr>, out1 @ out2))"

definition handleTouchEnd :: "MathConsts \<Rightarrow> GestureState \<Rightarrow> TouchEvent \<Rightarrow> GestureState \<times> Action list" where
  "handleTouchEnd c s e =
     (let s3 = releaseTouches c s e
      in if length (ongoingTouches s3) = 0 \<and> releasedCount s3 \<ge> 1
         then allFingersLifted c s3 e
         else (s3, []))"

subsection \<open>Events and runs\<close>

text \<open>
  What can happen to the hook: one of the three touch handlers is called, or a scheduled
  timer fires and runs \<^verbatim>\<open>handleDraggingTimeout\<close>. A handle that is not scheduled (never
  set, already fired, or cleared) does not fire.
\<close>

datatype Event =
    TouchStart TouchEvent
  | TouchMove bool Storage TouchEvent
  | TouchEnd TouchEvent
  | TimerFire nat

fun step :: "MathConsts \<Rightarrow> GestureState \<Rightarrow> Event \<Rightarrow> GestureState \<times> Action list" where
  "step c s (TouchStart e) = handleTouchStart s e"
| "step c s (TouchMove scrollMode localStorage e) = handleTouchMove c scrollMode localStorage s e"
| "step c s (TouchEnd e) = handleTouchEnd c s e"
| "step c s (TimerFire h) =
     (if h \<in> set (map fst (timers s)) then handleDraggingTimeout (clearTimeout h s)
      else (s, []))"

fun run :: "MathConsts \<Rightarrow> GestureState \<Rightarrow> Event list \<Rightarrow> GestureState \<times> Action list" where
  "run c s [] = (s, [])"
| "run c s (ev # evs) =
     (let (s1, out1) = step c s ev; (s2, out2) = run c s1 evs in (s2, out1 @ out2))"

inductive reachable :: "MathConsts \<Rightarrow> GestureState \<Rightarrow> bool" for c :: MathConsts where
  reachable_init: "reachable c initialState"
| reachable_step: "reachable c s \<Longrightarrow> reachable c (fst (step c s ev))"

subsection \<open>The modifier buffer of \<^verbatim>\<open>TrackpadPage\<close>\<close>

datatype ModifierState = Release | Active | Hold

text \<open>The two pieces of React state the modifier handlers read and set. A handler runs on
  the state of the latest render, and the page renders again before the next event.\<close>

record PageState =
  modifier :: ModifierState
  buffer :: "string list"

text \<open>What the page hands to the connection: \<^verbatim>\<open>send({type: 'key', key})\<close>,
  \<^verbatim>\<open>send({type: 'text', text})\<close> and \<^verbatim>\<open>sendCombo(keys)\<close>.\<close>

datatype Sent = Key string | Text string | Combo "string list"

text \<open>\<^verbatim>\<open>toLowerCase\<close> on code units below 256: the upper-case letters are A to Z and
  the Latin-1 letters 192 to 222 without the multiplication sign 215.\<close>

definition lowerChar :: "char \<Rightarrow> char" where
  "lowerChar ch =
     (let n = (of_char ch :: nat) in
      if (65 \<le> n \<and> n \<le> 90) \<or> (192 \<le> n \<and> n \<le> 222 \<and> n \<noteq> 215) then char_of (n + 32) else ch)"

definition toLowerCase :: "string \<Rightarrow> string" where
  "toLowerCase str = map lowerChar str"

definition handleModifierState :: "PageState \<Rightarrow> PageState" where
  "handleModifierState s =
     (case modifier s of
        Active \<Rightarrow> if length (buffer s) > 0 then s\<lparr>modifier := Hold\<rparr> else s\<lparr>modifier := Release\<rparr>
      | Hold \<Rightarrow> s\<lparr>modifier := Release, buffer := []\<rparr>
      | Release \<Rightarrow> s\<lparr>modifier := Active, buffer := []\<rparr>)"

definition handleModifier :: "PageState \<Rightarrow> string \<Rightarrow> PageState \<times> Sent list" where
  "handleModifier s key =
     (if modifier s = Hold then (s, [Combo (buffer s @ [key])])
      else if modifier s = Active then (s\<lparr>buffer := buffer s @ [key]\<rparr>, [])
      else (s, []))"

text \<open>The argument is \<^verbatim>\<open>e.key\<close>.\<close>

definition handleKeyDown :: "PageState \<Rightarrow> string \<Rightarrow> PageState \<times> Sent list" where
  "handleKeyDown s eKey =
     (let key = toLowerCase eKey in
      if modifier s \<noteq> Release then
        (if key = ''backspace'' then (s\<lparr>buffer := butlast (buffer s)\<rparr>, [])
         else if key = ''escape'' then (s\<lparr>modifier := Release, buffer := []\<rparr>, [])
         else if key \<noteq> ''unidentified'' \<and> length key > 1 then handleModifier s key
         else (s, []))
      else if key = ''backspace'' then (s, [Key ''backspace''])
      else if key = ''enter'' then (s, [Key ''enter''])
      else if key \<noteq> ''unidentified'' \<and> length key > 1 then (s, [Key key])
      else (s, []))"

subsection \<open>Derived notions used in the statements\<close>

text \<open>What holds of every state the hook can be in (see \<open>reachable_stateInv\<close>): the
  released count is 0 when no touch is active; no drag-release timer is pending while a
  touch is active; the only scheduled timer is the pending one; the pinch baseline and
  the pinching flag are clear below two touches; and a released count above the table
  length implies \<open>moved\<close>.\<close>

definition stateInv :: "MathConsts \<Rightarrow> GestureState \<Rightarrow> bool" where
  "stateInv c s =
     ((ongoingTouches s = [] \<longrightarrow> releasedCount s = 0)
      \<and> (ongoingTouches s \<noteq> [] \<longrightarrow> draggingTimeout s = None)
      \<and> timers s = (case draggingTimeout s of None \<Rightarrow> [] | Some h \<Rightarrow> [(h, TOUCH_TIMEOUT c)])
      \<and> (length (ongoingTouches s) < 2 \<longrightarrow> lastPinchDist s = None \<and> \<not> pinching s)
      \<and> (releasedCount s > length (TOUCH_MOVE_THRESHOLD c) \<longrightarrow> moved s))"

text \<open>The sums \<^verbatim>\<open>sumX\<close> and \<^verbatim>\<open>sumY\<close> the loop of \<^verbatim>\<open>handleTouchMove\<close> has
  accumulated when it ends.\<close>

definition moveSums :: "MathConsts \<Rightarrow> GestureState \<Rightarrow> TouchEvent \<Rightarrow> real \<times> real" where
  "moveSums c s e =
     (case touchMoveLoop c (startTimeStamp s) (eventTimeStamp e) (changedTouches e)
             (ongoingTouches s, moved s, 0, 0) of
        (ongoing, mv, sumX, sumY) \<Rightarrow> (sumX, sumY))"

text \<open>\<^verbatim>\<open>scrollSign\<close>, from the invert setting.\<close>

definition scrollSignOf :: "Storage \<Rightarrow> real" where
  "scrollSignOf localStorage = (if invert (getClientSettings localStorage) then 1 else - 1)"

text \<open>A zoom, scroll or move, as opposed to a click.\<close>

definition isPointerMotion :: "Action \<Rightarrow> bool" where
  "isPointerMotion a = (case a of Click b p \<Rightarrow> False | _ \<Rightarrow> True)"

text \<open>The kinds of events and actions the statements single out.\<close>

definition isTouchMove :: "Event \<Rightarrow> bool" where
  "isTouchMove ev = (case ev of TouchMove sm ls e \<Rightarrow> True | _ \<Rightarrow> False)"

definition isClick :: "Action \<Rightarrow> bool" where
  "isClick a = (case a of Click b p \<Rightarrow> True | _ \<Rightarrow> False)"

text \<open>A move event of a tap in progress: within the timeout after the start \<open>e0\<close>, and
  every position it reports for the touch \<open>t0\<close> within the one-touch threshold of the
  start position.\<close>

definition tapMove :: "MathConsts \<Rightarrow> TouchEvent \<Rightarrow> Touch \<Rightarrow> Event \<Rightarrow> bool" where
  "tapMove c e0 t0 ev =
     (case ev of
        TouchMove sm ls e \<Rightarrow>
          eventTimeStamp e - eventTimeStamp e0 < TOUCH_TIMEOUT c
          \<and> (\<forall>t \<in> set (changedTouches e).
                identifier t = identifier t0 \<longrightarrow>
                sqrt ((pageX t - pageX t0)\<^sup>2 + (pageY t - pageY t0)\<^sup>2)
                  \<le> TOUCH_MOVE_THRESHOLD c ! 0)
      | _ \<Rightarrow> False)"

text \<open>An event that is neither a touch start nor the firing of the timer \<open>h\<close>.\<close>

definition noStartNorTimer :: "nat \<Rightarrow> Event \<Rightarrow> bool" where
  "noStartNorTimer h ev =
     (case ev of TouchStart e \<Rightarrow> False | TimerFire h' \<Rightarrow> h' \<noteq> h | _ \<Rightarrow> True)"

text \<open>The state during a tap of the touch that started at \<open>(x0, y0)\<close> at time \<open>t\<close>.\<close>

definition tapping :: "int \<Rightarrow> real \<Rightarrow> real \<Rightarrow> real \<Rightarrow> bool \<Rightarrow> GestureState \<Rightarrow> bool" where
  "tapping i x0 y0 t d s =
     ((\<exists>tr. ongoingTouches s = [tr] \<and> identifier tr = i \<and> pageXStart tr = x0
            \<and> pageYStart tr = y0)
      \<and> \<not> moved s \<and> startTimeStamp s = t \<and> releasedCount s = 0
      \<and> draggingTimeout s = None \<and> timers s = [] \<and> dragging s = d)"

text \<open>The state after a tap, while its drag-release timer \<open>h\<close> is pending.\<close>

definition awaitingRelease :: "MathConsts \<Rightarrow> nat \<Rightarrow> GestureState \<Rightarrow> bool" where
  "awaitingRelease c h s =
     (ongoingTouches s = [] \<and> releasedCount s = 0 \<and> \<not> moved s \<and> \<not> dragging s
      \<and> draggingTimeout s = Some h \<and> timers s = [(h, TOUCH_TIMEOUT c)])"

text \<open>The test "All fingers lifted" of \<^verbatim>\<open>handleTouchEnd\<close>, for the event \<open>e\<close> in the state \<open>s\<close>.\<close>

definition allLifted :: "MathConsts \<Rightarrow> GestureState \<Rightarrow> TouchEvent \<Rightarrow> bool" where
  "allLifted c s e =
     (length (ongoingTouches (releaseTouches c s e)) = 0 \<and> releasedCount (releaseTouches c s e) \<ge> 1)"

text \<open>No event of the run is a touch end that lifts all fingers.\<close>

fun noFinalEnd :: "MathConsts \<Rightarrow> GestureState \<Rightarrow> Event list \<Rightarrow> bool" where
  "noFinalEnd c s [] = True"
| "noFinalEnd c s (ev # evs) =
     ((case ev of TouchEnd e \<Rightarrow> \<not> allLifted c s e | _ \<Rightarrow> True)
      \<and> noFinalEnd c (fst (step c s ev)) evs)"

text \<open>A drag in progress: the button is held and no timer is pending.\<close>

definition draggingOn :: "GestureState \<Rightarrow> bool" where
  "draggingOn s = (dragging s \<and> draggingTimeout s = None \<and> timers s = [])"




subsection \<open>Concrete inputs\<close>

text \<open>Modelled from the spec: the constants of \<^verbatim>\<open>utils/math\<close>, a file that is not among
  the sources. The spec gives a move-threshold table for one, two and three touches, a
  timeout (300 in its example), a pinch threshold below 20 and an acceleration multiplier
  of at least 1; the three table entries, the pinch threshold 10 and the constant
  multiplier are stand-ins, and the concrete runs below do not depend on their values
  beyond that. They are used at concrete inputs only: every general statement is about
  an arbitrary \<open>c\<close>.\<close>

definition exampleConsts :: MathConsts where
  "exampleConsts =
     \<lparr>TOUCH_MOVE_THRESHOLD = [10, 15, 15], TOUCH_TIMEOUT = 300, PINCH_THRESHOLD = 10,
      calculateAccelerationMult = (\<lambda>speed. 1)\<rparr>"

definition touchAt :: "int \<Rightarrow> real \<Rightarrow> real \<Rightarrow> Touch" where
  "touchAt i x y = \<lparr>identifier = i, pageX = x, pageY = y\<rparr>"

definition touchEvent :: "Touch list \<Rightarrow> real \<Rightarrow> TouchEvent" where
  "touchEvent touches ts = \<lparr>changedTouches = touches, eventTimeStamp = ts\<rparr>"

text \<open>Three fingers put down at once, at time 0.\<close>

definition threeFingersDown :: GestureState where
  "threeFingersDown =
     fst (handleTouchStart initialState
            (touchEvent [touchAt 1 0 0, touchAt 2 50 0, touchAt 3 100 0] 0))"

text \<open>One finger put down at time 0 and moved by 100 pixels at time 400.\<close>

definition oneFingerMoved :: GestureState where
  "oneFingerMoved =
     fst (run exampleConsts initialState
            [TouchStart (touchEvent [touchAt 1 0 0] 0),
             TouchMove False None (touchEvent [touchAt 1 100 0] 400)])"

text \<open>A tap at time 0 to 50, then four fingers put down at once at time 100, while the
  timer of the tap is pending.\<close>

definition fourFingersAfterTap :: GestureState where
  "fourFingersAfterTap =
     fst (run exampleConsts initialState
            [TouchStart (touchEvent [touchAt 1 0 0] 0),
             TouchEnd (touchEvent [touchAt 1 0 0] 50),
             TouchStart (touchEvent [touchAt 1 0 0, touchAt 2 50 0, touchAt 3 100 0,
                                     touchAt 4 150 0] 100)])"

text \<open>After a tap of one finger, from time 0 to 50.\<close>

definition afterTap :: GestureState where
  "afterTap =
     fst (run exampleConsts initialState
            [TouchStart (touchEvent [touchAt 1 100 100] 0),
             TouchEnd (touchEvent [touchAt 1 100 100] 50)])"



section \<open>Properties\<close>

subsection \<open>Unfolding the handlers at concrete inputs\<close>

lemmas handler_defs =
  handleTouchStart_def handleTouchMove_def handleTouchEnd_def releaseTouches_def tapClick_def
  allFingersLifted_def dispatchMove_def
  touchMoveBody_def handleDraggingTimeout_def setTimeout_def clearTimeout_def splice1_def
  tapButton_def getTouchDistance_def moveThreshold_def arrayGet_def exceeds_def
  getClientSettings_def initialState_def

lemmas example_defs = exampleConsts_def touchAt_def touchEvent_def

subsection \<open>The loops\<close>

lemma findTouchIndex_None: "findTouchIndex ts i = None \<longleftrightarrow> i \<notin> set (map identifier ts)"
  by (induction ts) auto

lemma findTouchIndex_Some:
  "findTouchIndex ts i = Some idx \<Longrightarrow> idx < length ts \<and> identifier (ts ! idx) = i"
  by (induction ts arbitrary: idx) (auto split: if_splits)

lemma findTouchIndex_first:
  "findTouchIndex ts i = Some idx \<Longrightarrow> i \<notin> set (map identifier (take idx ts))"
  by (induction ts arbitrary: idx) (auto split: if_splits)

lemma touchMoveBody_ids:
  "map identifier (fst (touchMoveBody c st ts touch acc)) = map identifier (fst acc)"
  by (cases acc) (auto simp: touchMoveBody_def Let_def map_update list_update_same_conv
      dest!: findTouchIndex_Some split: option.splits)

lemma touchMoveLoop_ids:
  "map identifier (fst (touchMoveLoop c st ts touches acc)) = map identifier (fst acc)"
  by (induction touches arbitrary: acc) (simp_all add: touchMoveBody_ids)

lemma touchMoveLoop_length:
  "length (fst (touchMoveLoop c st ts touches acc)) = length (fst acc)"
  using touchMoveLoop_ids [of c st ts touches acc] by (metis length_map)

lemma touchMoveBody_moved:
  "fst (snd acc) \<Longrightarrow> fst (snd (touchMoveBody c st ts touch acc))"
  by (cases acc) (auto simp: touchMoveBody_def Let_def split: option.splits)

lemma touchMoveLoop_moved:
  "fst (snd acc) \<Longrightarrow> fst (snd (touchMoveLoop c st ts touches acc))"
  by (induction touches arbitrary: acc) (simp_all add: touchMoveBody_moved)

lemma touchMoveLoop_untracked:
  "\<forall>t \<in> set touches. identifier t \<notin> set (map identifier (fst acc))
   \<Longrightarrow> touchMoveLoop c st ts touches acc = acc"
proof (induction touches)
  case Nil
  then show ?case by simp
next
  case (Cons t touches)
  then have "findTouchIndex (fst acc) (identifier t) = None"
    by (simp add: findTouchIndex_None)
  then have "touchMoveBody c st ts t acc = acc"
    by (cases acc) (simp add: touchMoveBody_def)
  with Cons show ?case by simp
qed

lemma touchEndLoop_untracked:
  "\<forall>t \<in> set touches. identifier t \<notin> set (map identifier (fst acc))
   \<Longrightarrow> touchEndLoop touches acc = acc"
proof (induction touches)
  case Nil
  then show ?case by simp
next
  case (Cons t touches)
  then have "findTouchIndex (fst acc) (identifier t) = None"
    by (simp add: findTouchIndex_None)
  with Cons show ?case by simp
qed

lemma touchEndLoop_empty: "touchEndLoop touches ([], rc) = ([], rc)"
  by (rule touchEndLoop_untracked) simp

lemma touchEndLoop_length:
  "length (fst (touchEndLoop touches acc)) \<le> length (fst acc)"
proof (induction touches arbitrary: acc)
  case Nil
  then show ?case by simp
next
  case (Cons t touches)
  show ?case
  proof (cases "findTouchIndex (fst acc) (identifier t)")
    case None
    then show ?thesis using Cons [of acc] by simp
  next
    case (Some idx)
    then have "length (splice1 idx (fst acc)) \<le> length (fst acc)"
      by (simp add: splice1_def)
    then show ?thesis
      using Some Cons [of "(splice1 idx (fst acc), snd acc + 1)"] by simp
  qed
qed

lemma touchEndLoop_count:
  "snd acc \<le> snd (touchEndLoop touches acc)"
proof (induction touches arbitrary: acc)
  case Nil
  then show ?case by simp
next
  case (Cons t touches)
  show ?case
  proof (cases "findTouchIndex (fst acc) (identifier t)")
    case None
    then show ?thesis using Cons [of acc] by simp
  next
    case (Some idx)
    then show ?thesis
      using Cons [of "(splice1 idx (fst acc), snd acc + 1)"] by simp
  qed
qed

lemma touchStartLoop_length:
  "length ongoing \<le> length (touchStartLoop ts touches ongoing)"
proof (induction touches arbitrary: ongoing)
  case Nil
  then show ?case by simp
next
  case (Cons t touches)
  show ?case
  proof (cases "findTouchIndex ongoing (identifier t)")
    case None
    then show ?thesis
      using Cons [of "ongoing @ [\<lparr>identifier = identifier t, pageX = pageX t, pageY = pageY t,
                     pageXStart = pageX t, pageYStart = pageY t, timeStamp = ts\<rparr>]"]
      by (simp add: Let_def)
  next
    case (Some idx)
    then show ?thesis
      using Cons [of "ongoing[idx := \<lparr>identifier = identifier t, pageX = pageX t, pageY = pageY t,
                     pageXStart = pageX t, pageYStart = pageY t, timeStamp = ts\<rparr>]"]
      by (simp add: Let_def)
  qed
qed

subsection \<open>The invariant of the reachable states\<close>

lemma stateInv_initialState: "stateInv c initialState"
  by (simp add: stateInv_def initialState_def)

lemma stateInv_handleTouchStart:
  assumes "stateInv c s"
  shows "stateInv c (fst (handleTouchStart s e))"
proof -
  let ?og = "touchStartLoop (eventTimeStamp e) (changedTouches e) (ongoingTouches s)"
  have len: "length (ongoingTouches s) \<le> length ?og"
    by (rule touchStartLoop_length)
  then have ne: "ongoingTouches s \<noteq> [] \<Longrightarrow> ?og \<noteq> []"
    by auto
  show ?thesis
    using assms len ne
    by (auto simp: stateInv_def handleTouchStart_def Let_def clearTimeout_def
        split: option.splits)
qed

lemma stateInv_dispatchMove:
  assumes "stateInv c s"
  shows "stateInv c (fst (dispatchMove c sm ls s sumX sumY))"
  using assms by (auto simp: stateInv_def dispatchMove_def Let_def)

lemma handleTouchMove_unfold:
  assumes "touchMoveLoop c (startTimeStamp s) (eventTimeStamp e) (changedTouches e)
             (ongoingTouches s, moved s, 0, 0) = (og, mv, sx, sy)"
  shows "handleTouchMove c sm ls s e =
           (if mv \<and> eventTimeStamp e - lastEndTimeStamp s \<ge> TOUCH_TIMEOUT c
            then dispatchMove c sm ls (s\<lparr>ongoingTouches := og, moved := mv\<rparr>) sx sy
            else (s\<lparr>ongoingTouches := og, moved := mv\<rparr>, []))"
  by (simp add: handleTouchMove_def assms Let_def)

lemma stateInv_handleTouchMove:
  assumes "stateInv c s"
  shows "stateInv c (fst (handleTouchMove c sm ls s e))"
proof -
  obtain og mv sx sy where loop:
    "touchMoveLoop c (startTimeStamp s) (eventTimeStamp e) (changedTouches e)
       (ongoingTouches s, moved s, 0, 0) = (og, mv, sx, sy)"
    by (metis prod_cases4)
  have len: "length og = length (ongoingTouches s)"
    using touchMoveLoop_length [of c "startTimeStamp s" "eventTimeStamp e" "changedTouches e"
        "(ongoingTouches s, moved s, 0, 0)"] loop by simp
  have mv: "moved s \<Longrightarrow> mv"
    using touchMoveLoop_moved [of "(ongoingTouches s, moved s, 0, 0)" c "startTimeStamp s"
        "eventTimeStamp e" "changedTouches e"] loop by simp
  have inv1: "stateInv c (s\<lparr>ongoingTouches := og, moved := mv\<rparr>)"
    using assms len mv by (auto simp: stateInv_def)
  show ?thesis
    using inv1 stateInv_dispatchMove [OF inv1, of sm ls sx sy]
    by (cases mv) (simp_all add: handleTouchMove_unfold [OF loop])
qed

lemma releaseTouches_fields:
  assumes "touchEndLoop (changedTouches e) (ongoingTouches s, releasedCount s) = (og, rc)"
  shows "ongoingTouches (releaseTouches c s e) = og"
    and "releasedCount (releaseTouches c s e) = rc"
    and "lastEndTimeStamp (releaseTouches c s e) = eventTimeStamp e"
    and "moved (releaseTouches c s e) = (moved s \<or> rc > length (TOUCH_MOVE_THRESHOLD c))"
    and "lastPinchDist (releaseTouches c s e) = (if length og < 2 then None else lastPinchDist s)"
    and "pinching (releaseTouches c s e) = (if length og < 2 then False else pinching s)"
    and "dragging (releaseTouches c s e) = dragging s"
    and "draggingTimeout (releaseTouches c s e) = draggingTimeout s"
    and "timers (releaseTouches c s e) = timers s"
    and "nextTimer (releaseTouches c s e) = nextTimer s"
    and "startTimeStamp (releaseTouches c s e) = startTimeStamp s"
    and "isTracking (releaseTouches c s e) = isTracking s"
    and "GestureState.more (releaseTouches c s e) = GestureState.more s"
  by (simp_all add: releaseTouches_def assms Let_def)

lemma tapClick_fields:
  "ongoingTouches (fst (tapClick c s e)) = ongoingTouches s"
  "releasedCount (fst (tapClick c s e)) = releasedCount s"
  "moved (fst (tapClick c s e)) = moved s"
  "dragging (fst (tapClick c s e)) = dragging s"
  "lastPinchDist (fst (tapClick c s e)) = lastPinchDist s"
  "pinching (fst (tapClick c s e)) = pinching s"
  "lastEndTimeStamp (fst (tapClick c s e)) = lastEndTimeStamp s"
  "startTimeStamp (fst (tapClick c s e)) = startTimeStamp s"
  by (simp_all add: tapClick_def setTimeout_def Let_def split: option.splits)

lemma tapClick_timers:
  assumes "draggingTimeout s = None" and "timers s = []"
  shows "timers (fst (tapClick c s e)) =
           (case draggingTimeout (fst (tapClick c s e)) of
              None \<Rightarrow> [] | Some h \<Rightarrow> [(h, TOUCH_TIMEOUT c)])"
  using assms by (simp add: tapClick_def setTimeout_def Let_def split: option.splits)

lemma allFingersLifted_fields:
  "ongoingTouches (fst (allFingersLifted c s e)) = ongoingTouches s"
  "releasedCount (fst (allFingersLifted c s e)) = 0"
  "moved (fst (allFingersLifted c s e)) = moved s"
  "dragging (fst (allFingersLifted c s e)) = False"
  "lastPinchDist (fst (allFingersLifted c s e)) = lastPinchDist s"
  "pinching (fst (allFingersLifted c s e)) = pinching s"
  "lastEndTimeStamp (fst (allFingersLifted c s e)) = lastEndTimeStamp s"
  "startTimeStamp (fst (allFingersLifted c s e)) = startTimeStamp s"
  by (simp_all add: allFingersLifted_def Let_def split_beta tapClick_fields)

lemma allFingersLifted_timers:
  assumes "draggingTimeout s = None" and "timers s = []"
  shows "timers (fst (allFingersLifted c s e)) =
           (case draggingTimeout (fst (allFingersLifted c s e)) of
              None \<Rightarrow> [] | Some h \<Rightarrow> [(h, TOUCH_TIMEOUT c)])"
proof -
  have "timers (fst (tapClick c (s\<lparr>isTracking := False, dragging := False\<rparr>) e)) =
      (case draggingTimeout (fst (tapClick c (s\<lparr>isTracking := False, dragging := False\<rparr>) e)) of
         None \<Rightarrow> [] | Some h \<Rightarrow> [(h, TOUCH_TIMEOUT c)])"
    by (rule tapClick_timers) (simp_all add: assms)
  moreover have "timers (fst (tapClick c (s\<lparr>isTracking := False\<rparr>) e)) =
      (case draggingTimeout (fst (tapClick c (s\<lparr>isTracking := False\<rparr>) e)) of
         None \<Rightarrow> [] | Some h \<Rightarrow> [(h, TOUCH_TIMEOUT c)])"
    by (rule tapClick_timers) (simp_all add: assms)
  ultimately show ?thesis
    by (simp add: allFingersLifted_def Let_def split_beta)
qed

lemma stateInv_handleTouchEnd:
  assumes "stateInv c s"
  shows "stateInv c (fst (handleTouchEnd c s e))"
proof -
  obtain og rc where loop:
    "touchEndLoop (changedTouches e) (ongoingTouches s, releasedCount s) = (og, rc)"
    by (metis prod.exhaust)
  note rel = releaseTouches_fields [OF loop, of c]
  have len: "length og \<le> length (ongoingTouches s)"
    using touchEndLoop_length [of "changedTouches e" "(ongoingTouches s, releasedCount s)"] loop
    by simp
  have cnt: "releasedCount s \<le> rc"
    using touchEndLoop_count [of "(ongoingTouches s, releasedCount s)" "changedTouches e"] loop
    by simp
  have emp: "ongoingTouches s = [] \<Longrightarrow> rc = 0"
    using assms loop by (simp add: stateInv_def touchEndLoop_empty)
  have ne: "og \<noteq> [] \<Longrightarrow> ongoingTouches s \<noteq> []"
    using len by auto
  show ?thesis
  proof (cases "og = [] \<and> rc \<ge> 1")
    case True
    then have "ongoingTouches s \<noteq> []" using emp by auto
    then have "draggingTimeout s = None" "timers s = []"
      using assms by (auto simp: stateInv_def)
    then have tm: "timers (fst (allFingersLifted c (releaseTouches c s e) e)) =
       (case draggingTimeout (fst (allFingersLifted c (releaseTouches c s e) e)) of
          None \<Rightarrow> [] | Some h \<Rightarrow> [(h, TOUCH_TIMEOUT c)])"
      by (intro allFingersLifted_timers) (simp_all add: rel)
    have eq: "handleTouchEnd c s e = allFingersLifted c (releaseTouches c s e) e"
      using True by (simp add: handleTouchEnd_def Let_def rel)
    show ?thesis
      unfolding eq stateInv_def
      using True tm by (simp add: allFingersLifted_fields rel)
  next
    case False
    then have eq: "handleTouchEnd c s e = (releaseTouches c s e, [])"
      by (auto simp: handleTouchEnd_def Let_def rel)
    show ?thesis
      unfolding eq stateInv_def
      using False assms len cnt emp ne by (auto simp: rel stateInv_def)
  qed
qed

lemma stateInv_step:
  assumes "stateInv c s"
  shows "stateInv c (fst (step c s ev))"
proof (cases ev)
  case (TouchStart e)
  then show ?thesis using assms by (simp add: stateInv_handleTouchStart)
next
  case (TouchMove sm ls e)
  then show ?thesis using assms by (simp add: stateInv_handleTouchMove)
next
  case (TouchEnd e)
  then show ?thesis using assms by (simp add: stateInv_handleTouchEnd)
next
  case (TimerFire h)
  then show ?thesis
    using assms
    by (auto simp: stateInv_def handleDraggingTimeout_def clearTimeout_def split: option.splits)
qed

lemma reachable_stateInv: "reachable c s \<Longrightarrow> stateInv c s"
  by (induction rule: reachable.induct) (simp_all add: stateInv_initialState stateInv_step)

lemma reachable_run: "reachable c s \<Longrightarrow> reachable c (fst (run c s evs))"
proof (induction evs arbitrary: s)
  case Nil
  then show ?case by simp
next
  case (Cons ev evs)
  from Cons.prems have "reachable c (fst (step c s ev))"
    by (rule reachable_step)
  then have "reachable c (fst (run c (fst (step c s ev)) evs))"
    by (rule Cons.IH)
  then show ?case by (simp add: split_beta)
qed

lemma reachable_oneFingerMoved: "reachable exampleConsts oneFingerMoved"
  unfolding oneFingerMoved_def by (rule reachable_run) (rule reachable_init)

lemma oneFingerMoved_eq:
  "oneFingerMoved =
     \<lparr>ongoingTouches = [\<lparr>identifier = 1, pageX = 100, pageY = 0, pageXStart = 0,
                          pageYStart = 0, timeStamp = 400\<rparr>],
      moved = True, startTimeStamp = 0, lastEndTimeStamp = 0, releasedCount = 0,
      dragging = False, draggingTimeout = None, lastPinchDist = None, pinching = False,
      isTracking = True, timers = [], nextTimer = 1\<rparr>"
  by (simp add: oneFingerMoved_def handler_defs example_defs)

subsection \<open>The settings read\<close>

lemma Number_two: "Number ''2'' = Num 2"
  by (simp add: Number_def trimString_def isStrWhiteSpaceChar_def nonDecimalIntegerLiteral_def
      strUnsignedDecimalLiteral_def js_negate_def decimalMantissa_def digitsValue_def
      digitValue_def isExponentIndicator_def)

lemma Number_minus_two: "Number ''-2'' = Num (- 2)"
  by (simp add: Number_def trimString_def isStrWhiteSpaceChar_def nonDecimalIntegerLiteral_def
      strUnsignedDecimalLiteral_def js_negate_def decimalMantissa_def digitsValue_def
      digitValue_def isExponentIndicator_def)

text \<open>
  C8, as stated: the settings read returns sensitivity 1.0 and invert false when nothing is
  stored, and for every stored value the returned sensitivity is positive. The second
  half fails: the stored string \<open>-2\<close> is a number, and the read returns it as it is.
\<close>

theorem C8_counterexample:
  "sensitivity (getClientSettings (Some [CLIENT_KEYS_SENSITIVITY \<mapsto> ''-2''])) = Num (- 2)
   \<and> \<not> (0::real) < - 2"
  by (simp add: getClientSettings_def Number_minus_two isNaN_def)

text \<open>
  C8, amended: without a storage, or with neither key stored, the read returns
  sensitivity 1.0 and invert false; a stored sensitivity string is returned as the number
  \<^verbatim>\<open>Number\<close> reads from it, whatever its sign, unless that is \<open>NaN\<close>, when 1.0 is
  returned; invert is true exactly when the stored invert value is the string \<open>true\<close>.
\<close>

theorem C8_settings_read:
  "getClientSettings None = \<lparr>sensitivity = Num 1, invert = False\<rparr>
   \<and> (getItem CLIENT_KEYS_SENSITIVITY = None \<and> getItem CLIENT_KEYS_INVERT = None
        \<longrightarrow> getClientSettings (Some getItem) = \<lparr>sensitivity = Num 1, invert = False\<rparr>)
   \<and> sensitivity (getClientSettings (Some getItem)) =
        (case getItem CLIENT_KEYS_SENSITIVITY of
           None \<Rightarrow> Num 1
         | Some str \<Rightarrow> if Number str = NaN then Num 1 else Number str)
   \<and> sensitivity (getClientSettings (Some getItem)) \<noteq> NaN
   \<and> invert (getClientSettings (Some getItem)) = (getItem CLIENT_KEYS_INVERT = Some ''true'')"
  by (auto simp add: getClientSettings_def isNaN_def Let_def split: option.splits)

text \<open>C8, witness: the empty storage, and a storage with invert stored as \<open>true\<close>.\<close>

theorem C8_settings_read_witness:
  "getClientSettings (Some Map.empty) = \<lparr>sensitivity = Num 1, invert = False\<rparr>
   \<and> invert (getClientSettings (Some [CLIENT_KEYS_INVERT \<mapsto> ''true''])) = True"
  using C8_settings_read [of Map.empty] C8_settings_read [of "[CLIENT_KEYS_INVERT \<mapsto> ''true'']"]
  by simp

subsection \<open>The dispatch of \<^verbatim>\<open>handleTouchMove\<close>\<close>

lemma dispatchMove_frame:
  "ongoingTouches (fst (dispatchMove c sm ls s sx sy)) = ongoingTouches s"
  "moved (fst (dispatchMove c sm ls s sx sy)) = moved s"
  "dragging (fst (dispatchMove c sm ls s sx sy)) = dragging s"
  "draggingTimeout (fst (dispatchMove c sm ls s sx sy)) = draggingTimeout s"
  "timers (fst (dispatchMove c sm ls s sx sy)) = timers s"
  "releasedCount (fst (dispatchMove c sm ls s sx sy)) = releasedCount s"
  "startTimeStamp (fst (dispatchMove c sm ls s sx sy)) = startTimeStamp s"
  "lastEndTimeStamp (fst (dispatchMove c sm ls s sx sy)) = lastEndTimeStamp s"
  by (simp_all add: dispatchMove_def Let_def)

lemma dispatchMove_out:
  "length (snd (dispatchMove c sm ls s sx sy)) \<le> 1"
  "snd (dispatchMove c sm ls s sx sy) \<noteq> [] \<longleftrightarrow>
     sm \<or> length (ongoingTouches s) = 2 \<or> length (ongoingTouches s) = 1 \<or> dragging s"
  "\<forall>a \<in> set (snd (dispatchMove c sm ls s sx sy)). isPointerMotion a"
  by (auto simp: dispatchMove_def Let_def isPointerMotion_def)

lemma dispatchMove_settings:
  "fst (dispatchMove c sm ls s sx sy) = fst (dispatchMove c sm ls' s sx sy)"
  by (simp add: dispatchMove_def Let_def)

text \<open>
  C4, as stated: whenever \<open>moved\<close> holds and the debounce is over, a call of
  \<^verbatim>\<open>onTouchMove\<close> dispatches exactly one action, whatever the touch count, scroll mode
  and drag state. With three fingers down, no scroll mode and no drag, the call
  dispatches nothing.
\<close>

theorem C4_counterexample:
  "moved (fst (handleTouchMove exampleConsts False None threeFingersDown
                 (touchEvent [touchAt 1 5 0] 400)))
   \<and> eventTimeStamp (touchEvent [touchAt 1 5 0] 400) - lastEndTimeStamp threeFingersDown
        \<ge> TOUCH_TIMEOUT exampleConsts
   \<and> snd (handleTouchMove exampleConsts False None threeFingersDown
            (touchEvent [touchAt 1 5 0] 400)) = []"
  by (simp add: threeFingersDown_def handler_defs example_defs)

text \<open>
  C4, amended: whenever \<open>moved\<close> holds and the debounce is over, a call of
  \<^verbatim>\<open>onTouchMove\<close> dispatches at most one action, a zoom, scroll or move; it dispatches
  one exactly when scroll mode is on, or one or two touches are active, or a drag is in
  progress, and none otherwise. \<open>moved\<close> is the flag as the handler tests it, after its
  loop; the dispatch does not change it.
\<close>

theorem C4_at_most_one_dispatch:
  assumes "moved (fst (handleTouchMove c scrollMode localStorage s e))"
    and "eventTimeStamp e - lastEndTimeStamp s \<ge> TOUCH_TIMEOUT c"
  shows "length (snd (handleTouchMove c scrollMode localStorage s e)) \<le> 1
         \<and> (snd (handleTouchMove c scrollMode localStorage s e) \<noteq> [] \<longleftrightarrow>
              scrollMode \<or> length (ongoingTouches s) = 2 \<or> length (ongoingTouches s) = 1
              \<or> dragging s)
         \<and> (\<forall>a \<in> set (snd (handleTouchMove c scrollMode localStorage s e)). isPointerMotion a)"
proof -
  obtain og mv sx sy where loop:
    "touchMoveLoop c (startTimeStamp s) (eventTimeStamp e) (changedTouches e)
       (ongoingTouches s, moved s, 0, 0) = (og, mv, sx, sy)"
    by (metis prod_cases4)
  have len: "length og = length (ongoingTouches s)"
    using touchMoveLoop_length [of c "startTimeStamp s" "eventTimeStamp e" "changedTouches e"
        "(ongoingTouches s, moved s, 0, 0)"] loop by simp
  have mv using assms(1)
    by (simp add: handleTouchMove_unfold [OF loop] dispatchMove_frame split: if_splits)
  then have eq: "handleTouchMove c scrollMode localStorage s e =
      dispatchMove c scrollMode localStorage (s\<lparr>ongoingTouches := og, moved := mv\<rparr>) sx sy"
    using assms(2) by (simp add: handleTouchMove_unfold [OF loop])
  show ?thesis
    unfolding eq
    using dispatchMove_out [of c scrollMode localStorage "s\<lparr>ongoingTouches := og, moved := mv\<rparr>" sx sy]
    by (simp add: len)
qed

text \<open>C4, witness: three fingers down in scroll mode; the same move dispatches one scroll.\<close>

theorem C4_at_most_one_dispatch_witness:
  "moved (fst (handleTouchMove exampleConsts True None threeFingersDown
                 (touchEvent [touchAt 1 5 0] 400)))
   \<and> length (snd (handleTouchMove exampleConsts True None threeFingersDown
                    (touchEvent [touchAt 1 5 0] 400))) \<le> 1
   \<and> snd (handleTouchMove exampleConsts True None threeFingersDown
            (touchEvent [touchAt 1 5 0] 400)) = [Scroll (Num (- 5)) (Num 0)]"
proof -
  have h1: "moved (fst (handleTouchMove exampleConsts True None threeFingersDown
                 (touchEvent [touchAt 1 5 0] 400)))"
    by (simp add: threeFingersDown_def handler_defs example_defs)
  have h2: "eventTimeStamp (touchEvent [touchAt 1 5 0] 400) - lastEndTimeStamp threeFingersDown
      \<ge> TOUCH_TIMEOUT exampleConsts"
    by (simp add: threeFingersDown_def handler_defs example_defs)
  have out: "snd (handleTouchMove exampleConsts True None threeFingersDown
            (touchEvent [touchAt 1 5 0] 400)) = [Scroll (Num (- 5)) (Num 0)]"
    by (simp add: threeFingersDown_def handler_defs example_defs)
  show ?thesis
    using C4_at_most_one_dispatch [OF h1 h2] h1 out by simp
qed

lemma dispatchMove_magnitudes:
  "(\<forall>dx dy. Move dx dy \<in> set (snd (dispatchMove c sm ls s sx sy)) \<longrightarrow>
      dx = js_times (Num sx) (sensitivity (getClientSettings ls))
      \<and> dy = js_times (Num sy) (sensitivity (getClientSettings ls)))
   \<and> (\<forall>dx dy. Scroll dx dy \<in> set (snd (dispatchMove c sm ls s sx sy)) \<longrightarrow>
      dx = js_times (js_times (Num sx) (sensitivity (getClientSettings ls))) (Num (scrollSignOf ls))
      \<and> dy = js_times (js_times (Num sy) (sensitivity (getClientSettings ls))) (Num (scrollSignOf ls)))"
  by (simp add: dispatchMove_def Let_def scrollSignOf_def)

lemma handleTouchMove_settings:
  "fst (handleTouchMove c sm ls s e) = fst (handleTouchMove c sm ls' s e)"
proof -
  obtain og mv sx sy where loop:
    "touchMoveLoop c (startTimeStamp s) (eventTimeStamp e) (changedTouches e)
       (ongoingTouches s, moved s, 0, 0) = (og, mv, sx, sy)"
    by (metis prod_cases4)
  show ?thesis
    by (simp add: handleTouchMove_unfold [OF loop] dispatchMove_settings [of c sm ls _ sx sy ls'])
qed

lemma handleTouchMove_magnitudes:
  "(\<forall>dx dy. Move dx dy \<in> set (snd (handleTouchMove c sm ls s e)) \<longrightarrow>
      dx = js_times (Num (fst (moveSums c s e))) (sensitivity (getClientSettings ls))
      \<and> dy = js_times (Num (snd (moveSums c s e))) (sensitivity (getClientSettings ls)))
   \<and> (\<forall>dx dy. Scroll dx dy \<in> set (snd (handleTouchMove c sm ls s e)) \<longrightarrow>
      dx = js_times (js_times (Num (fst (moveSums c s e))) (sensitivity (getClientSettings ls)))
             (Num (scrollSignOf ls))
      \<and> dy = js_times (js_times (Num (snd (moveSums c s e))) (sensitivity (getClientSettings ls)))
             (Num (scrollSignOf ls)))"
proof -
  obtain og mv sx sy where loop:
    "touchMoveLoop c (startTimeStamp s) (eventTimeStamp e) (changedTouches e)
       (ongoingTouches s, moved s, 0, 0) = (og, mv, sx, sy)"
    by (metis prod_cases4)
  have sums: "moveSums c s e = (sx, sy)"
    by (simp add: moveSums_def loop)
  show ?thesis
  proof (cases "mv \<and> eventTimeStamp e - lastEndTimeStamp s \<ge> TOUCH_TIMEOUT c")
    case True
    then have "handleTouchMove c sm ls s e =
        dispatchMove c sm ls (s\<lparr>ongoingTouches := og, moved := mv\<rparr>) sx sy"
      by (simp add: handleTouchMove_unfold [OF loop])
    then show ?thesis
      using dispatchMove_magnitudes [of c sm ls "s\<lparr>ongoingTouches := og, moved := mv\<rparr>" sx sy]
      by (simp only: sums fst_conv snd_conv)
  next
    case False
    then have "snd (handleTouchMove c sm ls s e) = []"
      by (auto simp: handleTouchMove_unfold [OF loop])
    then show ?thesis by simp
  qed
qed

text \<open>
  C6: the \<open>dx\<close> and \<open>dy\<close> of every move or scroll a call of \<^verbatim>\<open>onTouchMove\<close> dispatches
  are the accumulated sums times the sensitivity read from the storage at that call,
  a scroll times the sign of the invert setting read at that call in addition; for a
  finite sensitivity \<open>k\<close> this is the product \<open>sum * k\<close>, linear in \<open>k\<close>. The state the call
  leaves does not depend on the storage, so nothing of the settings is kept: in two
  calls in a row, the first output is computed from the first storage and the second
  output from the second storage alone.
\<close>

theorem C6_sensitivity_at_dispatch:
  "(\<forall>dx dy. Move dx dy \<in> set (snd (handleTouchMove c scrollMode localStorage s e)) \<longrightarrow>
      dx = js_times (Num (fst (moveSums c s e))) (sensitivity (getClientSettings localStorage))
      \<and> dy = js_times (Num (snd (moveSums c s e))) (sensitivity (getClientSettings localStorage)))
   \<and> (\<forall>dx dy. Scroll dx dy \<in> set (snd (handleTouchMove c scrollMode localStorage s e)) \<longrightarrow>
      dx = js_times (js_times (Num (fst (moveSums c s e)))
                      (sensitivity (getClientSettings localStorage)))
             (Num (scrollSignOf localStorage))
      \<and> dy = js_times (js_times (Num (snd (moveSums c s e)))
                      (sensitivity (getClientSettings localStorage)))
             (Num (scrollSignOf localStorage)))
   \<and> (\<forall>k. sensitivity (getClientSettings localStorage) = Num k \<longrightarrow>
        (\<forall>dx dy. Move dx dy \<in> set (snd (handleTouchMove c scrollMode localStorage s e)) \<longrightarrow>
           dx = Num (fst (moveSums c s e) * k) \<and> dy = Num (snd (moveSums c s e) * k))
        \<and> (\<forall>dx dy. Scroll dx dy \<in> set (snd (handleTouchMove c scrollMode localStorage s e)) \<longrightarrow>
           dx = Num (fst (moveSums c s e) * k * scrollSignOf localStorage)
           \<and> dy = Num (snd (moveSums c s e) * k * scrollSignOf localStorage)))
   \<and> fst (handleTouchMove c scrollMode localStorage s e)
       = fst (handleTouchMove c scrollMode localStorage' s e)
   \<and> snd (run c s [TouchMove scrollMode localStorage e, TouchMove scrollMode' localStorage' e'])
       = snd (handleTouchMove c scrollMode localStorage s e)
         @ snd (handleTouchMove c scrollMode' localStorage'
                  (fst (handleTouchMove c scrollMode localStorage' s e)) e')"
proof -
  note mag = handleTouchMove_magnitudes [of c scrollMode localStorage s e]
  have lin: "\<forall>k. sensitivity (getClientSettings localStorage) = Num k \<longrightarrow>
        (\<forall>dx dy. Move dx dy \<in> set (snd (handleTouchMove c scrollMode localStorage s e)) \<longrightarrow>
           dx = Num (fst (moveSums c s e) * k) \<and> dy = Num (snd (moveSums c s e) * k))
        \<and> (\<forall>dx dy. Scroll dx dy \<in> set (snd (handleTouchMove c scrollMode localStorage s e)) \<longrightarrow>
           dx = Num (fst (moveSums c s e) * k * scrollSignOf localStorage)
           \<and> dy = Num (snd (moveSums c s e) * k * scrollSignOf localStorage))"
    using mag by auto
  have st: "fst (handleTouchMove c scrollMode localStorage s e)
       = fst (handleTouchMove c scrollMode localStorage' s e)"
    by (rule handleTouchMove_settings)
  have two: "snd (run c s [TouchMove scrollMode localStorage e, TouchMove scrollMode' localStorage' e'])
       = snd (handleTouchMove c scrollMode localStorage s e)
         @ snd (handleTouchMove c scrollMode' localStorage'
                  (fst (handleTouchMove c scrollMode localStorage' s e)) e')"
    by (simp add: split_beta st [symmetric])
  show ?thesis
    using mag lin st two by blast
qed

text \<open>C6, witness: two moves by 10 pixels, the stored sensitivity changed from 2 to -2 in
  between.\<close>

theorem C6_sensitivity_at_dispatch_witness:
  "snd (run exampleConsts oneFingerMoved
          [TouchMove False (Some [CLIENT_KEYS_SENSITIVITY \<mapsto> ''2'']) (touchEvent [touchAt 1 110 0] 500),
           TouchMove False (Some [CLIENT_KEYS_SENSITIVITY \<mapsto> ''-2'']) (touchEvent [touchAt 1 120 0] 600)])
     = [Move (Num 20) (Num 0), Move (Num (- 20)) (Num 0)]"
  using C6_sensitivity_at_dispatch [of exampleConsts False
      "Some [CLIENT_KEYS_SENSITIVITY \<mapsto> ''2'']" oneFingerMoved "touchEvent [touchAt 1 110 0] 500"
      "Some [CLIENT_KEYS_SENSITIVITY \<mapsto> ''-2'']" False "touchEvent [touchAt 1 120 0] 600"]
  by (simp add: oneFingerMoved_eq handler_defs example_defs Number_two Number_minus_two isNaN_def
      CLIENT_KEYS_SENSITIVITY_def CLIENT_KEYS_INVERT_def)

subsection \<open>Events that name no tracked touch\<close>

text \<open>
  C7, as stated: an \<^verbatim>\<open>onTouchMove\<close> or \<^verbatim>\<open>onTouchEnd\<close> event all of whose identifiers
  are untracked emits nothing and leaves the state unchanged. With one finger down and
  moved, a move event for the unknown identifier 7 dispatches a move by (0, 0), and an end
  event for it changes the state: it records the time stamp of the event.
\<close>

theorem C7_counterexample:
  "identifier (touchAt 7 30 30) \<notin> set (map identifier (ongoingTouches oneFingerMoved))
   \<and> snd (handleTouchMove exampleConsts False None oneFingerMoved
            (touchEvent [touchAt 7 30 30] 800)) = [Move (Num 0) (Num 0)]
   \<and> fst (handleTouchEnd exampleConsts oneFingerMoved (touchEvent [touchAt 7 30 30] 800))
       \<noteq> oneFingerMoved"
proof -
  have "lastEndTimeStamp (fst (handleTouchEnd exampleConsts oneFingerMoved
           (touchEvent [touchAt 7 30 30] 800))) = 800"
    by (simp add: oneFingerMoved_eq handler_defs example_defs)
  moreover have "lastEndTimeStamp oneFingerMoved = 0"
    by (simp add: oneFingerMoved_eq)
  ultimately have "fst (handleTouchEnd exampleConsts oneFingerMoved
           (touchEvent [touchAt 7 30 30] 800)) \<noteq> oneFingerMoved"
    by auto
  then show ?thesis
    by (simp add: oneFingerMoved_eq handler_defs example_defs)
qed

text \<open>
  C7, amended: for an event all of whose identifiers are untracked, in a reachable state:
  \<^verbatim>\<open>onTouchEnd\<close> emits nothing and changes nothing but \<open>lastEndTimeStamp\<close>, which becomes
  the time stamp of the event; \<^verbatim>\<open>onTouchMove\<close> emits nothing and changes nothing when
  \<open>moved\<close> is false or the debounce is not over, and otherwise makes the usual dispatch with
  both sums 0, which changes no tracked touch.
\<close>

theorem C7_untracked_contacts:
  assumes "reachable c s"
    and "\<forall>t \<in> set (changedTouches e). identifier t \<notin> set (map identifier (ongoingTouches s))"
  shows "handleTouchEnd c s e = (s\<lparr>lastEndTimeStamp := eventTimeStamp e\<rparr>, [])
         \<and> handleTouchMove c scrollMode localStorage s e =
             (if moved s \<and> eventTimeStamp e - lastEndTimeStamp s \<ge> TOUCH_TIMEOUT c
              then dispatchMove c scrollMode localStorage s 0 0
              else (s, []))"
proof -
  have inv: "stateInv c s"
    using assms(1) by (rule reachable_stateInv)
  have endLoop: "touchEndLoop (changedTouches e) (ongoingTouches s, releasedCount s) =
      (ongoingTouches s, releasedCount s)"
    using assms(2) by (simp add: touchEndLoop_untracked)
  have moveLoop: "touchMoveLoop c (startTimeStamp s) (eventTimeStamp e) (changedTouches e)
       (ongoingTouches s, moved s, 0, 0) = (ongoingTouches s, moved s, 0, 0)"
    using assms(2) by (simp add: touchMoveLoop_untracked)
  note rel = releaseTouches_fields [OF endLoop, of c]
  have "releaseTouches c s e = s\<lparr>lastEndTimeStamp := eventTimeStamp e\<rparr>"
    using inv by (intro GestureState.equality) (auto simp: rel stateInv_def)
  moreover have "\<not> (ongoingTouches s = [] \<and> releasedCount s \<ge> 1)"
    using inv by (auto simp: stateInv_def)
  ultimately have "handleTouchEnd c s e = (s\<lparr>lastEndTimeStamp := eventTimeStamp e\<rparr>, [])"
    by (auto simp: handleTouchEnd_def Let_def)
  moreover have "handleTouchMove c scrollMode localStorage s e =
             (if moved s \<and> eventTimeStamp e - lastEndTimeStamp s \<ge> TOUCH_TIMEOUT c
              then dispatchMove c scrollMode localStorage s 0 0
              else (s, []))"
  proof -
    have same: "s\<lparr>ongoingTouches := ongoingTouches s, moved := moved s\<rparr> = s"
      by simp
    show ?thesis
      unfolding handleTouchMove_unfold [OF moveLoop] same ..
  qed
  ultimately show ?thesis by simp
qed

text \<open>C7, witness: one finger down and moved, and events for the unknown identifier 7 at
  time 100, within the debounce.\<close>

theorem C7_untracked_contacts_witness:
  "reachable exampleConsts oneFingerMoved
   \<and> map identifier (changedTouches (touchEvent [touchAt 7 30 30] 100)) = [7]
   \<and> map identifier (ongoingTouches oneFingerMoved) = [1]
   \<and> handleTouchEnd exampleConsts oneFingerMoved (touchEvent [touchAt 7 30 30] 100)
       = (oneFingerMoved\<lparr>lastEndTimeStamp := 100\<rparr>, [])
   \<and> handleTouchMove exampleConsts False None oneFingerMoved (touchEvent [touchAt 7 30 30] 100)
       = (oneFingerMoved, [])"
proof -
  have ids: "\<forall>t \<in> set (changedTouches (touchEvent [touchAt 7 30 30] 100)).
         identifier t \<notin> set (map identifier (ongoingTouches oneFingerMoved))"
    by (simp add: oneFingerMoved_eq example_defs)
  show ?thesis
    using C7_untracked_contacts [OF reachable_oneFingerMoved ids, of False None]
      reachable_oneFingerMoved ids
    by (simp add: oneFingerMoved_eq example_defs)
qed

subsection \<open>What each handler leaves alone\<close>

lemma handleTouchStart_fields:
  "ongoingTouches (fst (handleTouchStart s e)) =
     touchStartLoop (eventTimeStamp e) (changedTouches e) (ongoingTouches s)"
  "moved (fst (handleTouchStart s e)) = (if ongoingTouches s = [] then False else moved s)"
  "startTimeStamp (fst (handleTouchStart s e)) =
     (if ongoingTouches s = [] then eventTimeStamp e else startTimeStamp s)"
  "lastEndTimeStamp (fst (handleTouchStart s e)) = 0"
  "releasedCount (fst (handleTouchStart s e)) = releasedCount s"
  "dragging (fst (handleTouchStart s e)) = (dragging s \<or> draggingTimeout s \<noteq> None)"
  "draggingTimeout (fst (handleTouchStart s e)) = None"
  "timers (fst (handleTouchStart s e)) =
     (case draggingTimeout s of
        None \<Rightarrow> timers s | Some h \<Rightarrow> filter (\<lambda>t. fst t \<noteq> h) (timers s))"
  "snd (handleTouchStart s e) = []"
  by (simp_all add: handleTouchStart_def Let_def clearTimeout_def split: option.splits)


lemma handleTouchMove_fields:
  "map identifier (ongoingTouches (fst (handleTouchMove c sm ls s e)))
     = map identifier (ongoingTouches s)"
  "dragging (fst (handleTouchMove c sm ls s e)) = dragging s"
  "draggingTimeout (fst (handleTouchMove c sm ls s e)) = draggingTimeout s"
  "timers (fst (handleTouchMove c sm ls s e)) = timers s"
  "releasedCount (fst (handleTouchMove c sm ls s e)) = releasedCount s"
  "startTimeStamp (fst (handleTouchMove c sm ls s e)) = startTimeStamp s"
  "lastEndTimeStamp (fst (handleTouchMove c sm ls s e)) = lastEndTimeStamp s"
proof -
  obtain og mv sx sy where loop:
    "touchMoveLoop c (startTimeStamp s) (eventTimeStamp e) (changedTouches e)
       (ongoingTouches s, moved s, 0, 0) = (og, mv, sx, sy)"
    by (metis prod_cases4)
  have ids: "map identifier og = map identifier (ongoingTouches s)"
    using touchMoveLoop_ids [of c "startTimeStamp s" "eventTimeStamp e" "changedTouches e"
        "(ongoingTouches s, moved s, 0, 0)"] loop by simp
  note unf = handleTouchMove_unfold [OF loop, of sm ls]
  show "map identifier (ongoingTouches (fst (handleTouchMove c sm ls s e)))
     = map identifier (ongoingTouches s)"
    unfolding unf by (simp add: dispatchMove_frame ids)
  show "dragging (fst (handleTouchMove c sm ls s e)) = dragging s"
    unfolding unf by (simp add: dispatchMove_frame)
  show "draggingTimeout (fst (handleTouchMove c sm ls s e)) = draggingTimeout s"
    unfolding unf by (simp add: dispatchMove_frame)
  show "timers (fst (handleTouchMove c sm ls s e)) = timers s"
    unfolding unf by (simp add: dispatchMove_frame)
  show "releasedCount (fst (handleTouchMove c sm ls s e)) = releasedCount s"
    unfolding unf by (simp add: dispatchMove_frame)
  show "startTimeStamp (fst (handleTouchMove c sm ls s e)) = startTimeStamp s"
    unfolding unf by (simp add: dispatchMove_frame)
  show "lastEndTimeStamp (fst (handleTouchMove c sm ls s e)) = lastEndTimeStamp s"
    unfolding unf by (simp add: dispatchMove_frame)
qed

lemma handleTouchMove_no_click:
  "\<forall>a \<in> set (snd (handleTouchMove c sm ls s e)). \<not> isClick a"
proof -
  obtain og mv sx sy where loop:
    "touchMoveLoop c (startTimeStamp s) (eventTimeStamp e) (changedTouches e)
       (ongoingTouches s, moved s, 0, 0) = (og, mv, sx, sy)"
    by (metis prod_cases4)
  have "\<forall>a \<in> set (snd (dispatchMove c sm ls s' sx sy)). \<not> isClick a" for s'
    by (auto simp: dispatchMove_def Let_def isClick_def)
  then show ?thesis
    unfolding handleTouchMove_unfold [OF loop, of sm ls] by simp
qed

subsection \<open>Putting fingers down and lifting them all\<close>

lemma touchStartLoop_ids:
  "set (map identifier (touchStartLoop ts touches ongoing))
     = set (map identifier ongoing) \<union> set (map identifier touches)"
proof (induction touches arbitrary: ongoing)
  case Nil
  then show ?case by simp
next
  case (Cons t touches)
  let ?tr = "\<lparr>identifier = identifier t, pageX = pageX t, pageY = pageY t,
              pageXStart = pageX t, pageYStart = pageY t, timeStamp = ts\<rparr>"
  show ?case
  proof (cases "findTouchIndex ongoing (identifier t)")
    case None
    then show ?thesis
      using Cons [of "ongoing @ [?tr]"] by (auto simp: Let_def)
  next
    case (Some idx)
    then have "map identifier (ongoing[idx := ?tr]) = map identifier ongoing"
      by (auto simp: map_update list_update_same_conv dest!: findTouchIndex_Some)
    moreover have "identifier t \<in> set (map identifier ongoing)"
      using Some findTouchIndex_None [of ongoing "identifier t"] by auto
    ultimately show ?thesis
      using Some Cons [of "ongoing[idx := ?tr]"] by (auto simp: Let_def)
  qed
qed

lemma touchStartLoop_distinct:
  "distinct (map identifier ongoing)
   \<Longrightarrow> distinct (map identifier (touchStartLoop ts touches ongoing))"
proof (induction touches arbitrary: ongoing)
  case Nil
  then show ?case by simp
next
  case (Cons t touches)
  let ?tr = "\<lparr>identifier = identifier t, pageX = pageX t, pageY = pageY t,
              pageXStart = pageX t, pageYStart = pageY t, timeStamp = ts\<rparr>"
  show ?case
  proof (cases "findTouchIndex ongoing (identifier t)")
    case None
    then have "distinct (map identifier (ongoing @ [?tr]))"
      using Cons.prems findTouchIndex_None [of ongoing "identifier t"] by auto
    then show ?thesis
      using None Cons.IH [of "ongoing @ [?tr]"] by (simp add: Let_def)
  next
    case (Some idx)
    then have "map identifier (ongoing[idx := ?tr]) = map identifier ongoing"
      by (auto simp: map_update list_update_same_conv dest!: findTouchIndex_Some)
    then show ?thesis
      using Some Cons.prems Cons.IH [of "ongoing[idx := ?tr]"] by (simp add: Let_def)
  qed
qed

lemma touchStartLoop_fresh_length:
  assumes "distinct (map identifier touches)"
  shows "length (touchStartLoop ts touches []) = length touches"
proof -
  have "distinct (map identifier (touchStartLoop ts touches []))"
    by (rule touchStartLoop_distinct) simp
  then have "length (map identifier (touchStartLoop ts touches []))
      = card (set (map identifier (touchStartLoop ts touches [])))"
    by (simp only: distinct_card)
  also have "\<dots> = card (set (map identifier touches))"
    by (simp only: touchStartLoop_ids) simp
  also have "\<dots> = length (map identifier touches)"
    using assms by (simp only: distinct_card)
  finally show ?thesis by simp
qed

lemma splice1_ids:
  assumes "findTouchIndex ongoing i = Some idx" and "distinct (map identifier ongoing)"
  shows "distinct (map identifier (splice1 idx ongoing))"
    and "set (map identifier (splice1 idx ongoing)) = set (map identifier ongoing) - {i}"
    and "Suc (length (splice1 idx ongoing)) = length ongoing"
proof -
  from assms(1) have idx: "idx < length ongoing" and id: "identifier (ongoing ! idx) = i"
    by (auto dest: findTouchIndex_Some)
  have split: "ongoing = take idx ongoing @ (ongoing ! idx) # drop (Suc idx) ongoing"
    using idx by (rule id_take_nth_drop)
  have d: "distinct (map identifier (take idx ongoing) @ i # map identifier (drop (Suc idx) ongoing))"
    using assms(2) id by (subst (asm) split) simp
  show "distinct (map identifier (splice1 idx ongoing))"
    using d by (simp add: splice1_def)
  have "set (map identifier ongoing) =
      set (map identifier (take idx ongoing)) \<union> {i} \<union> set (map identifier (drop (Suc idx) ongoing))"
    using id by (subst split) auto
  then show "set (map identifier (splice1 idx ongoing)) = set (map identifier ongoing) - {i}"
    using d by (auto simp: splice1_def)
  show "Suc (length (splice1 idx ongoing)) = length ongoing"
    using idx by (simp add: splice1_def)
qed

lemma touchEndLoop_all:
  assumes "distinct (map identifier ongoing)"
    and "set (map identifier ongoing) \<subseteq> set (map identifier touches)"
  shows "touchEndLoop touches (ongoing, rc) = ([], rc + length ongoing)"
  using assms
proof (induction touches arbitrary: ongoing rc)
  case Nil
  then show ?case by simp
next
  case (Cons t touches)
  show ?case
  proof (cases "findTouchIndex ongoing (identifier t)")
    case None
    then have "identifier t \<notin> set (map identifier ongoing)"
      by (simp add: findTouchIndex_None)
    then have "set (map identifier ongoing) \<subseteq> set (map identifier touches)"
      using Cons.prems(2) by (simp add: subset_insert)
    then show ?thesis
      using None Cons.IH [of ongoing rc] Cons.prems(1) by simp
  next
    case (Some idx)
    note sp = splice1_ids [OF Some Cons.prems(1)]
    have "set (map identifier (splice1 idx ongoing)) \<subseteq> set (map identifier touches)"
      using Cons.prems(2) sp(2) by auto
    then have "touchEndLoop touches (splice1 idx ongoing, rc + 1)
        = ([], rc + 1 + length (splice1 idx ongoing))"
      using sp(1) by (rule Cons.IH [rotated])
    then show ?thesis
      using Some sp(3) by simp
  qed
qed

lemma run_Cons:
  "run c s (ev # evs) =
     (fst (run c (fst (step c s ev)) evs), snd (step c s ev) @ snd (run c (fst (step c s ev)) evs))"
  by (simp add: split_beta)

lemma run_moves_frame:
  assumes "\<forall>ev \<in> set evs. isTouchMove ev"
  shows "map identifier (ongoingTouches (fst (run c s evs))) = map identifier (ongoingTouches s)
         \<and> dragging (fst (run c s evs)) = dragging s
         \<and> draggingTimeout (fst (run c s evs)) = draggingTimeout s
         \<and> timers (fst (run c s evs)) = timers s
         \<and> releasedCount (fst (run c s evs)) = releasedCount s
         \<and> startTimeStamp (fst (run c s evs)) = startTimeStamp s
         \<and> lastEndTimeStamp (fst (run c s evs)) = lastEndTimeStamp s
         \<and> (\<forall>a \<in> set (snd (run c s evs)). \<not> isClick a)"
  using assms
proof (induction evs arbitrary: s)
  case Nil
  then show ?case by simp
next
  case (Cons ev evs)
  from Cons.prems obtain sm ls e where ev: "ev = TouchMove sm ls e"
    by (cases ev) (auto simp: isTouchMove_def)
  have rest: "\<forall>ev \<in> set evs. isTouchMove ev"
    using Cons.prems by simp
  note ih = Cons.IH [OF rest, of "fst (handleTouchMove c sm ls s e)"]
  show ?case
    unfolding run_Cons ev step.simps fst_conv snd_conv
    using ih handleTouchMove_no_click [of c sm ls s e]
    by (auto simp: handleTouchMove_fields)
qed

lemma tapClick_moved: "moved s \<Longrightarrow> tapClick c s e = (s, [])"
  by (simp add: tapClick_def)

lemma allFingersLifted_moved:
  "moved s \<Longrightarrow> snd (allFingersLifted c s e) = (if dragging s then [Click left False] else [])"
  by (simp add: allFingersLifted_def Let_def tapClick_moved)

text \<open>
  C5, as stated: when four or more fingers touch at once and are released at once, the
  session ends with \<open>moved\<close> set and no click is emitted. When the four fingers come down
  while the drag-release timer of a tap is pending, the start turns the tap into a drag,
  and the release of the four fingers emits the click that ends it.
\<close>

theorem C5_counterexample:
  "map identifier (ongoingTouches fourFingersAfterTap) = [1, 2, 3, 4]
   \<and> snd (handleTouchEnd exampleConsts fourFingersAfterTap
            (touchEvent [touchAt 1 0 0, touchAt 2 50 0, touchAt 3 100 0, touchAt 4 150 0] 150))
       = [Click left False]"
  by (simp add: fourFingersAfterTap_def handler_defs example_defs)

text \<open>
  C5, amended: when four or more fingers (with distinct identifiers) touch at once with
  no touch active before, and are all released at once, whatever move events lie in
  between, then, the table having at most three entries, the session ends with \<open>moved\<close>
  set and no touch active, the moves emit no click, and the release emits no click with
  press = true: it emits nothing, unless a drag is in progress (the session began while
  the drag-release timer of a tap was pending), when it emits exactly the click
  (left, press = false) that ends the drag.
\<close>

theorem C5_four_finger_release:
  assumes "ongoingTouches s = []"
    and "distinct (map identifier (changedTouches e0))"
    and "4 \<le> length (changedTouches e0)"
    and "length (TOUCH_MOVE_THRESHOLD c) \<le> 3"
    and "\<forall>ev \<in> set moves. isTouchMove ev"
    and "set (map identifier (changedTouches e0)) \<subseteq> set (map identifier (changedTouches e1))"
  shows "moved (fst (handleTouchEnd c (fst (run c (fst (handleTouchStart s e0)) moves)) e1))
         \<and> ongoingTouches (fst (handleTouchEnd c (fst (run c (fst (handleTouchStart s e0)) moves)) e1)) = []
         \<and> (\<forall>b. Click b True \<notin> set (snd (handleTouchEnd c (fst (run c (fst (handleTouchStart s e0)) moves)) e1)))
         \<and> snd (handleTouchEnd c (fst (run c (fst (handleTouchStart s e0)) moves)) e1)
             = (if dragging s \<or> draggingTimeout s \<noteq> None then [Click left False] else [])
         \<and> (\<forall>a \<in> set (snd (run c (fst (handleTouchStart s e0)) moves)). \<not> isClick a)"
proof -
  let ?s1 = "fst (handleTouchStart s e0)"
  let ?s2 = "fst (run c ?s1 moves)"
  let ?og1 = "touchStartLoop (eventTimeStamp e0) (changedTouches e0) []"
  have og1: "ongoingTouches ?s1 = ?og1"
    by (simp add: handleTouchStart_fields assms(1))
  have d1: "distinct (map identifier ?og1)"
    by (rule touchStartLoop_distinct) simp
  have ids1: "set (map identifier ?og1) = set (map identifier (changedTouches e0))"
    by (simp only: touchStartLoop_ids) simp
  have len1: "length ?og1 = length (changedTouches e0)"
    using assms(2) by (rule touchStartLoop_fresh_length)
  note fr = run_moves_frame [OF assms(5), of c ?s1]
  have ids2: "map identifier (ongoingTouches ?s2) = map identifier ?og1"
    using fr og1 by simp
  have len2: "length (ongoingTouches ?s2) = length (changedTouches e0)"
    using ids2 len1 by (metis length_map)
  have drag2: "dragging ?s2 = (dragging s \<or> draggingTimeout s \<noteq> None)"
    using fr by (simp add: handleTouchStart_fields)
  have loop: "touchEndLoop (changedTouches e1) (ongoingTouches ?s2, releasedCount ?s2)
      = ([], releasedCount ?s2 + length (ongoingTouches ?s2))"
    using d1 ids1 assms(6) by (intro touchEndLoop_all) (simp_all only: ids2)
  note rel = releaseTouches_fields [OF loop, of c]
  have big: "length (TOUCH_MOVE_THRESHOLD c) < releasedCount ?s2 + length (ongoingTouches ?s2)"
    using assms(3,4) len2 by simp
  then have mv: "moved (releaseTouches c ?s2 e1)"
    by (simp add: rel)
  have eq: "handleTouchEnd c ?s2 e1 = allFingersLifted c (releaseTouches c ?s2 e1) e1"
    using big by (simp add: handleTouchEnd_def Let_def rel)
  have out: "snd (handleTouchEnd c ?s2 e1)
      = (if dragging s \<or> draggingTimeout s \<noteq> None then [Click left False] else [])"
    unfolding eq allFingersLifted_moved [OF mv] by (simp add: rel drag2)
  have "moved (fst (handleTouchEnd c ?s2 e1))"
    unfolding eq using mv by (simp add: allFingersLifted_fields)
  moreover have "ongoingTouches (fst (handleTouchEnd c ?s2 e1)) = []"
    unfolding eq by (simp add: allFingersLifted_fields rel)
  moreover have "\<forall>b. Click b True \<notin> set (snd (handleTouchEnd c ?s2 e1))"
    unfolding out by simp
  moreover have "\<forall>a \<in> set (snd (run c ?s1 moves)). \<not> isClick a"
    using fr by simp
  ultimately show ?thesis
    using out by simp
qed

text \<open>C5, witness: four fingers down from the initial state, one of them moved, all four
  lifted in another order.\<close>

theorem C5_four_finger_release_witness:
  "moved (fst (handleTouchEnd exampleConsts
                (fst (run exampleConsts
                       (fst (handleTouchStart initialState
                              (touchEvent [touchAt 1 0 0, touchAt 2 50 0, touchAt 3 100 0,
                                           touchAt 4 150 0] 0)))
                       [TouchMove False None (touchEvent [touchAt 1 1 1] 10)]))
                (touchEvent [touchAt 4 150 0, touchAt 3 100 0, touchAt 2 50 0, touchAt 1 1 1] 20)))
   \<and> snd (handleTouchEnd exampleConsts
                (fst (run exampleConsts
                       (fst (handleTouchStart initialState
                              (touchEvent [touchAt 1 0 0, touchAt 2 50 0, touchAt 3 100 0,
                                           touchAt 4 150 0] 0)))
                       [TouchMove False None (touchEvent [touchAt 1 1 1] 10)]))
                (touchEvent [touchAt 4 150 0, touchAt 3 100 0, touchAt 2 50 0, touchAt 1 1 1] 20))
       = []"
proof -
  have h1: "ongoingTouches initialState = []"
    by (simp add: initialState_def)
  have h2: "distinct (map identifier (changedTouches
              (touchEvent [touchAt 1 0 0, touchAt 2 50 0, touchAt 3 100 0, touchAt 4 150 0] 0)))"
    by (simp add: example_defs)
  have h3: "4 \<le> length (changedTouches
              (touchEvent [touchAt 1 0 0, touchAt 2 50 0, touchAt 3 100 0, touchAt 4 150 0] 0))"
    by (simp add: example_defs)
  have h4: "length (TOUCH_MOVE_THRESHOLD exampleConsts) \<le> 3"
    by (simp add: example_defs)
  have h5: "\<forall>ev \<in> set [TouchMove False None (touchEvent [touchAt 1 1 1] 10)]. isTouchMove ev"
    by (simp add: isTouchMove_def)
  have h6: "set (map identifier (changedTouches
              (touchEvent [touchAt 1 0 0, touchAt 2 50 0, touchAt 3 100 0, touchAt 4 150 0] 0)))
      \<subseteq> set (map identifier (changedTouches
              (touchEvent [touchAt 4 150 0, touchAt 3 100 0, touchAt 2 50 0, touchAt 1 1 1] 20)))"
    by (simp add: example_defs)
  show ?thesis
    using C5_four_finger_release [OF h1 h2 h3 h4 h5 h6]
    by (simp add: initialState_def)
qed

subsection \<open>A single-finger tap\<close>

lemma moveThreshold_one:
  "TOUCH_MOVE_THRESHOLD c \<noteq> [] \<Longrightarrow> moveThreshold c 1 = Some (TOUCH_MOVE_THRESHOLD c ! 0)"
  by (cases "TOUCH_MOVE_THRESHOLD c") (simp_all add: moveThreshold_def arrayGet_def)

lemma touchMoveLoop_tap:
  assumes "TOUCH_MOVE_THRESHOLD c \<noteq> []"
    and "ts - st < TOUCH_TIMEOUT c"
    and "\<forall>t \<in> set touches. identifier t = identifier tr \<longrightarrow>
           sqrt ((pageX t - pageXStart tr)\<^sup>2 + (pageY t - pageYStart tr)\<^sup>2)
             \<le> TOUCH_MOVE_THRESHOLD c ! 0"
  shows "\<exists>tr' sx' sy'. touchMoveLoop c st ts touches ([tr], False, sx, sy) = ([tr'], False, sx', sy')
           \<and> identifier tr' = identifier tr \<and> pageXStart tr' = pageXStart tr
           \<and> pageYStart tr' = pageYStart tr"
  using assms(3)
proof (induction touches arbitrary: tr sx sy)
  case Nil
  then show ?case by simp
next
  case (Cons t touches)
  show ?case
  proof (cases "identifier t = identifier tr")
    case False
    then have "touchMoveBody c st ts t ([tr], False, sx, sy) = ([tr], False, sx, sy)"
      by (simp add: touchMoveBody_def)
    then show ?thesis
      using Cons.IH [of tr sx sy] Cons.prems by simp
  next
    case True
    let ?tr' = "tr\<lparr>pageX := pageX t, pageY := pageY t, timeStamp := ts\<rparr>"
    have near: "sqrt ((pageX t - pageXStart tr)\<^sup>2 + (pageY t - pageYStart tr)\<^sup>2)
             \<le> TOUCH_MOVE_THRESHOLD c ! 0"
      using Cons.prems True by simp
    have "\<exists>sx1 sy1. touchMoveBody c st ts t ([tr], False, sx, sy) = ([?tr'], False, sx1, sy1)"
      using True near assms(1,2)
      by (simp add: touchMoveBody_def Let_def moveThreshold_one [unfolded One_nat_def] exceeds_def)
    then obtain sx1 sy1 where
      body: "touchMoveBody c st ts t ([tr], False, sx, sy) = ([?tr'], False, sx1, sy1)"
      by blast
    have "\<forall>t \<in> set touches. identifier t = identifier ?tr' \<longrightarrow>
           sqrt ((pageX t - pageXStart ?tr')\<^sup>2 + (pageY t - pageYStart ?tr')\<^sup>2)
             \<le> TOUCH_MOVE_THRESHOLD c ! 0"
      using Cons.prems by simp
    from Cons.IH [OF this, of sx1 sy1] show ?thesis
      by (simp add: body)
  qed
qed

lemma handleTouchMove_tap:
  assumes "TOUCH_MOVE_THRESHOLD c \<noteq> []"
    and "tapping i x0 y0 t d s"
    and "eventTimeStamp e - t < TOUCH_TIMEOUT c"
    and "\<forall>u \<in> set (changedTouches e). identifier u = i \<longrightarrow>
           sqrt ((pageX u - x0)\<^sup>2 + (pageY u - y0)\<^sup>2) \<le> TOUCH_MOVE_THRESHOLD c ! 0"
  shows "tapping i x0 y0 t d (fst (handleTouchMove c sm ls s e))
         \<and> snd (handleTouchMove c sm ls s e) = []"
proof -
  from assms(2) obtain tr where tr: "ongoingTouches s = [tr]" "identifier tr = i"
    "pageXStart tr = x0" "pageYStart tr = y0"
    and rest: "\<not> moved s" "startTimeStamp s = t" "releasedCount s = 0"
      "draggingTimeout s = None" "timers s = []" "dragging s = d"
    by (auto simp: tapping_def)
  have "\<exists>tr' sx' sy'. touchMoveLoop c t (eventTimeStamp e) (changedTouches e) ([tr], False, 0, 0)
          = ([tr'], False, sx', sy')
           \<and> identifier tr' = identifier tr \<and> pageXStart tr' = pageXStart tr
           \<and> pageYStart tr' = pageYStart tr"
    using assms(1,3,4) tr by (intro touchMoveLoop_tap) simp_all
  then obtain tr' sx' sy' where
    loop: "touchMoveLoop c (startTimeStamp s) (eventTimeStamp e) (changedTouches e)
             (ongoingTouches s, moved s, 0, 0) = ([tr'], False, sx', sy')"
    and tr': "identifier tr' = i" "pageXStart tr' = x0" "pageYStart tr' = y0"
    using tr rest by auto
  show ?thesis
    unfolding handleTouchMove_unfold [OF loop]
    using tr' rest by (simp add: tapping_def)
qed

lemma run_tap_moves:
  assumes "TOUCH_MOVE_THRESHOLD c \<noteq> []"
    and "tapping (identifier t0) (pageX t0) (pageY t0) (eventTimeStamp e0) d s"
    and "\<forall>ev \<in> set moves. tapMove c e0 t0 ev"
  shows "tapping (identifier t0) (pageX t0) (pageY t0) (eventTimeStamp e0) d (fst (run c s moves))
         \<and> snd (run c s moves) = []"
  using assms(2,3)
proof (induction moves arbitrary: s)
  case Nil
  then show ?case by simp
next
  case (Cons ev moves)
  from Cons.prems(2) obtain sm ls e where ev: "ev = TouchMove sm ls e"
    and time: "eventTimeStamp e - eventTimeStamp e0 < TOUCH_TIMEOUT c"
    and near: "\<forall>u \<in> set (changedTouches e). identifier u = identifier t0 \<longrightarrow>
           sqrt ((pageX u - pageX t0)\<^sup>2 + (pageY u - pageY t0)\<^sup>2) \<le> TOUCH_MOVE_THRESHOLD c ! 0"
    by (cases ev) (auto simp: tapMove_def)
  note one = handleTouchMove_tap [OF assms(1) Cons.prems(1) time near, of sm ls]
  have "\<forall>ev \<in> set moves. tapMove c e0 t0 ev"
    using Cons.prems(2) by simp
  with one have "tapping (identifier t0) (pageX t0) (pageY t0) (eventTimeStamp e0) d
       (fst (run c (fst (handleTouchMove c sm ls s e)) moves))
       \<and> snd (run c (fst (handleTouchMove c sm ls s e)) moves) = []"
    by (intro Cons.IH) simp_all
  then show ?case
    unfolding run_Cons ev step.simps using one by simp
qed

lemma handleTouchStart_tap:
  assumes "stateInv c s" and "ongoingTouches s = []" and "changedTouches e0 = [t0]"
  shows "tapping (identifier t0) (pageX t0) (pageY t0) (eventTimeStamp e0)
           (dragging s \<or> draggingTimeout s \<noteq> None) (fst (handleTouchStart s e0))"
proof -
  have "releasedCount s = 0"
    and "timers s = (case draggingTimeout s of None \<Rightarrow> [] | Some h \<Rightarrow> [(h, TOUCH_TIMEOUT c)])"
    using assms(1,2) by (simp_all add: stateInv_def)
  then show ?thesis
    using assms(2,3)
    by (simp add: tapping_def handleTouchStart_fields split: option.splits)
qed

lemma handleTouchEnd_tap:
  assumes "TOUCH_MOVE_THRESHOLD c \<noteq> []"
    and "tapping i x0 y0 t d s"
    and "i \<in> set (map identifier (changedTouches e1))"
    and "eventTimeStamp e1 - t < TOUCH_TIMEOUT c"
  shows "snd (handleTouchEnd c s e1) = (if d then [Click left False] else []) @ [Click left True]
         \<and> awaitingRelease c (nextTimer s) (fst (handleTouchEnd c s e1))"
proof -
  from assms(2) obtain tr where tr: "ongoingTouches s = [tr]" "identifier tr = i"
    and rest: "\<not> moved s" "startTimeStamp s = t" "releasedCount s = 0"
      "draggingTimeout s = None" "timers s = []" "dragging s = d"
    by (auto simp: tapping_def)
  have "touchEndLoop (changedTouches e1) ([tr], 0) = ([], 0 + length [tr])"
    using assms(3) tr by (intro touchEndLoop_all) simp_all
  then have loop: "touchEndLoop (changedTouches e1) (ongoingTouches s, releasedCount s) = ([], 1)"
    using tr rest by simp
  note rel = releaseTouches_fields [OF loop, of c]
  have len: "\<not> 1 > length (TOUCH_MOVE_THRESHOLD c)"
    using assms(1) by (cases "TOUCH_MOVE_THRESHOLD c") simp_all
  have eq: "handleTouchEnd c s e1 = allFingersLifted c (releaseTouches c s e1) e1"
    by (simp add: handleTouchEnd_def Let_def rel)
  have tap: "tapClick c s' e1 = ((fst (setTimeout (TOUCH_TIMEOUT c) s'))\<lparr>draggingTimeout := Some (nextTimer s')\<rparr>,
                                [Click left True])"
    if "\<not> moved s'" "startTimeStamp s' = t" "releasedCount s' = 1" for s'
    using that assms(4) by (simp add: tapClick_def tapButton_def setTimeout_def)
  let ?r = "releaseTouches c s e1"
  have r: "\<not> moved ?r" "startTimeStamp ?r = t" "releasedCount ?r = 1" "ongoingTouches ?r = []"
    "dragging ?r = d" "timers ?r = []" "nextTimer ?r = nextTimer s"
    using rest len by (simp_all add: rel)
  show ?thesis
  proof (cases d)
    case True
    have "allFingersLifted c ?r e1 =
        ((fst (tapClick c (?r\<lparr>isTracking := False, dragging := False\<rparr>) e1))\<lparr>releasedCount := 0\<rparr>,
         [Click left False] @ snd (tapClick c (?r\<lparr>isTracking := False, dragging := False\<rparr>) e1))"
      using True r by (simp add: allFingersLifted_def Let_def split_beta)
    moreover have "tapClick c (?r\<lparr>isTracking := False, dragging := False\<rparr>) e1 =
        ((fst (setTimeout (TOUCH_TIMEOUT c) (?r\<lparr>isTracking := False, dragging := False\<rparr>)))
            \<lparr>draggingTimeout := Some (nextTimer (?r\<lparr>isTracking := False, dragging := False\<rparr>))\<rparr>,
         [Click left True])"
      by (rule tap) (simp_all add: r)
    ultimately show ?thesis
      unfolding eq using True r by (simp add: awaitingRelease_def setTimeout_def)
  next
    case False
    have "allFingersLifted c ?r e1 =
        ((fst (tapClick c (?r\<lparr>isTracking := False\<rparr>) e1))\<lparr>releasedCount := 0\<rparr>,
         snd (tapClick c (?r\<lparr>isTracking := False\<rparr>) e1))"
      using False r by (simp add: allFingersLifted_def Let_def split_beta)
    moreover have "tapClick c (?r\<lparr>isTracking := False\<rparr>) e1 =
        ((fst (setTimeout (TOUCH_TIMEOUT c) (?r\<lparr>isTracking := False\<rparr>)))
            \<lparr>draggingTimeout := Some (nextTimer (?r\<lparr>isTracking := False\<rparr>))\<rparr>,
         [Click left True])"
      by (rule tap) (simp_all add: r)
    ultimately show ?thesis
      unfolding eq using False r by (simp add: awaitingRelease_def setTimeout_def)
  qed
qed

lemma awaitingRelease_step:
  assumes "awaitingRelease c h s" and "noStartNorTimer h ev"
  shows "awaitingRelease c h (fst (step c s ev)) \<and> snd (step c s ev) = []"
proof (cases ev)
  case (TouchStart e)
  then show ?thesis using assms(2) by (simp add: noStartNorTimer_def)
next
  case (TouchMove sm ls e)
  have loop: "touchMoveLoop c (startTimeStamp s) (eventTimeStamp e) (changedTouches e)
       (ongoingTouches s, moved s, 0, 0) = ([], False, 0, 0)"
    using assms(1) by (simp add: awaitingRelease_def touchMoveLoop_untracked)
  show ?thesis
    unfolding TouchMove step.simps handleTouchMove_unfold [OF loop]
    using assms(1) by (simp add: awaitingRelease_def)
next
  case (TouchEnd e)
  have loop: "touchEndLoop (changedTouches e) (ongoingTouches s, releasedCount s) = ([], 0)"
    using assms(1) by (simp add: awaitingRelease_def touchEndLoop_empty)
  note rel = releaseTouches_fields [OF loop, of c]
  have "handleTouchEnd c s e = (releaseTouches c s e, [])"
    by (simp add: handleTouchEnd_def Let_def rel)
  then show ?thesis
    unfolding TouchEnd step.simps
    using assms(1) by (simp add: awaitingRelease_def rel)
next
  case (TimerFire h')
  then show ?thesis
    using assms by (simp add: noStartNorTimer_def awaitingRelease_def)
qed

lemma awaitingRelease_run:
  assumes "awaitingRelease c h s" and "\<forall>ev \<in> set evs. noStartNorTimer h ev"
  shows "awaitingRelease c h (fst (run c s evs)) \<and> snd (run c s evs) = []"
  using assms
proof (induction evs arbitrary: s)
  case Nil
  then show ?case by simp
next
  case (Cons ev evs)
  have one: "awaitingRelease c h (fst (step c s ev)) \<and> snd (step c s ev) = []"
    using Cons.prems by (intro awaitingRelease_step) simp_all
  then have "awaitingRelease c h (fst (run c (fst (step c s ev)) evs))
      \<and> snd (run c (fst (step c s ev)) evs) = []"
    using Cons.prems(2) by (intro Cons.IH) simp_all
  then show ?case
    unfolding run_Cons using one by simp
qed

lemma run_append:
  "run c s (evs @ evs') =
     (fst (run c (fst (run c s evs)) evs'), snd (run c s evs) @ snd (run c (fst (run c s evs)) evs'))"
  by (induction evs arbitrary: s) (simp_all add: split_beta)

lemma awaitingRelease_fire:
  assumes "awaitingRelease c h s"
  shows "snd (step c s (TimerFire h)) = [Click left False]"
    and "draggingTimeout (fst (step c s (TimerFire h))) = None"
    and "timers (fst (step c s (TimerFire h))) = []"
  using assms
  by (simp_all add: awaitingRelease_def handleDraggingTimeout_def clearTimeout_def)

text \<open>
  C1: a session of a single touch \<open>t0\<close>, started by \<open>e0\<close> with no touch active, whose move
  events \<open>moves\<close> all come within the timeout and keep the touch within the one-touch
  threshold of its start position (the first entry of the table), and which the event
  \<open>e1\<close> ends within the timeout. The moves emit nothing; the touch end emits exactly one
  click (left, press = true), which is its whole output unless the session began as a
  drag (then the click that ends the drag precedes it); it leaves one timer \<open>h\<close> pending;
  and when that timer fires, after any events that are neither a touch start nor this
  firing, the run from the touch end on has emitted exactly the click
  (left, press = false), and no timer is pending any more.
\<close>

theorem C1_single_finger_tap:
  fixes c :: MathConsts and s :: GestureState and e0 e1 :: TouchEvent and t0 :: Touch
    and moves :: "Event list"
  defines "s1 \<equiv> fst (handleTouchStart s e0)"
  defines "s2 \<equiv> fst (run c s1 moves)"
  defines "s3 \<equiv> fst (handleTouchEnd c s2 e1)"
  assumes "reachable c s" and "ongoingTouches s = []"
    and "TOUCH_MOVE_THRESHOLD c \<noteq> []"
    and "changedTouches e0 = [t0]"
    and "\<forall>ev \<in> set moves. tapMove c e0 t0 ev"
    and "identifier t0 \<in> set (map identifier (changedTouches e1))"
    and "eventTimeStamp e1 - eventTimeStamp e0 < TOUCH_TIMEOUT c"
  shows "snd (run c s1 moves) = []
         \<and> snd (handleTouchEnd c s2 e1)
             = (if dragging s \<or> draggingTimeout s \<noteq> None then [Click left False] else [])
               @ [Click left True]
         \<and> length (filter (\<lambda>a. a = Click left True) (snd (handleTouchEnd c s2 e1))) = 1
         \<and> (\<exists>h. draggingTimeout s3 = Some h \<and> timers s3 = [(h, TOUCH_TIMEOUT c)]
                \<and> (\<forall>evs. (\<forall>ev \<in> set evs. noStartNorTimer h ev) \<longrightarrow>
                      snd (run c s3 (evs @ [TimerFire h])) = [Click left False]
                      \<and> draggingTimeout (fst (run c s3 (evs @ [TimerFire h]))) = None))"
proof -
  let ?d = "dragging s \<or> draggingTimeout s \<noteq> None"
  have inv: "stateInv c s"
    using assms(4) by (rule reachable_stateInv)
  have t1: "tapping (identifier t0) (pageX t0) (pageY t0) (eventTimeStamp e0) ?d s1"
    unfolding s1_def using inv assms(5,7) by (rule handleTouchStart_tap)
  have t2: "tapping (identifier t0) (pageX t0) (pageY t0) (eventTimeStamp e0) ?d s2
      \<and> snd (run c s1 moves) = []"
    unfolding s2_def using assms(6) t1 assms(8) by (rule run_tap_moves)
  then have t2': "tapping (identifier t0) (pageX t0) (pageY t0) (eventTimeStamp e0) ?d s2"
    by simp
  note fin = handleTouchEnd_tap [OF assms(6) t2' assms(9,10)]
  have out: "snd (handleTouchEnd c s2 e1) = (if ?d then [Click left False] else []) @ [Click left True]"
    using fin by simp
  have aw: "awaitingRelease c (nextTimer s2) s3"
    unfolding s3_def using fin by simp
  have later: "snd (run c s3 (evs @ [TimerFire (nextTimer s2)])) = [Click left False]
      \<and> draggingTimeout (fst (run c s3 (evs @ [TimerFire (nextTimer s2)]))) = None"
    if "\<forall>ev \<in> set evs. noStartNorTimer (nextTimer s2) ev" for evs
  proof -
    have q: "awaitingRelease c (nextTimer s2) (fst (run c s3 evs)) \<and> snd (run c s3 evs) = []"
      using aw that by (rule awaitingRelease_run)
    then have "awaitingRelease c (nextTimer s2) (fst (run c s3 evs))"
      by simp
    note fire = awaitingRelease_fire [OF this]
    show ?thesis
      unfolding run_append using q fire(1,2) by (simp add: split_beta)
  qed
  have "draggingTimeout s3 = Some (nextTimer s2) \<and> timers s3 = [(nextTimer s2, TOUCH_TIMEOUT c)]"
    using aw by (simp add: awaitingRelease_def)
  with later have ex: "\<exists>h. draggingTimeout s3 = Some h \<and> timers s3 = [(h, TOUCH_TIMEOUT c)]
                \<and> (\<forall>evs. (\<forall>ev \<in> set evs. noStartNorTimer h ev) \<longrightarrow>
                      snd (run c s3 (evs @ [TimerFire h])) = [Click left False]
                      \<and> draggingTimeout (fst (run c s3 (evs @ [TimerFire h]))) = None)"
    by blast
  have cnt: "length (filter (\<lambda>a. a = Click left True) (snd (handleTouchEnd c s2 e1))) = 1"
    unfolding out by simp
  show ?thesis
    using t2 out cnt ex by simp
qed

lemma sqrt_25: "sqrt 25 = 5"
  by (rule real_sqrt_unique) simp_all

text \<open>C1, witness: the touch 1 down at (100, 100) at time 0, moved by 5 pixels, lifted at
  time 50; then a move event for an unknown touch, and the timer.\<close>

theorem C1_single_finger_tap_witness:
  "snd (run exampleConsts (fst (handleTouchStart initialState (touchEvent [touchAt 1 100 100] 0)))
          [TouchMove False None (touchEvent [touchAt 1 103 104] 20)]) = []
   \<and> snd (handleTouchEnd exampleConsts
            (fst (run exampleConsts
                   (fst (handleTouchStart initialState (touchEvent [touchAt 1 100 100] 0)))
                   [TouchMove False None (touchEvent [touchAt 1 103 104] 20)]))
            (touchEvent [touchAt 1 103 104] 50)) = [Click left True]
   \<and> snd (run exampleConsts
            (fst (handleTouchEnd exampleConsts
                   (fst (run exampleConsts
                          (fst (handleTouchStart initialState (touchEvent [touchAt 1 100 100] 0)))
                          [TouchMove False None (touchEvent [touchAt 1 103 104] 20)]))
                   (touchEvent [touchAt 1 103 104] 50)))
            ([TouchMove False None (touchEvent [touchAt 9 0 0] 60)] @ [TimerFire 1]))
       = [Click left False]"
proof -
  have h1: "reachable exampleConsts initialState"
    by (rule reachable_init)
  have h2: "ongoingTouches initialState = []"
    by (simp add: initialState_def)
  have h3: "TOUCH_MOVE_THRESHOLD exampleConsts \<noteq> []"
    by (simp add: exampleConsts_def)
  have h4: "changedTouches (touchEvent [touchAt 1 100 100] 0) = [touchAt 1 100 100]"
    by (simp add: touchEvent_def)
  have h5: "\<forall>ev \<in> set [TouchMove False None (touchEvent [touchAt 1 103 104] 20)].
      tapMove exampleConsts (touchEvent [touchAt 1 100 100] 0) (touchAt 1 100 100) ev"
    by (simp add: tapMove_def example_defs sqrt_25)
  have h6: "identifier (touchAt 1 100 100)
      \<in> set (map identifier (changedTouches (touchEvent [touchAt 1 103 104] 50)))"
    by (simp add: example_defs)
  have h7: "eventTimeStamp (touchEvent [touchAt 1 103 104] 50)
      - eventTimeStamp (touchEvent [touchAt 1 100 100] 0) < TOUCH_TIMEOUT exampleConsts"
    by (simp add: example_defs)
  show ?thesis
    using C1_single_finger_tap [OF h1 h2 h3 h4 h5 h6 h7]
    by (simp add: handler_defs example_defs sqrt_25)
qed

subsection \<open>A tap turned into a drag\<close>

lemma handleTouchEnd_not_lifted:
  "\<not> allLifted c s e \<Longrightarrow> handleTouchEnd c s e = (releaseTouches c s e, [])"
  by (auto simp: handleTouchEnd_def allLifted_def Let_def)

lemma handleTouchEnd_lifted:
  "allLifted c s e \<Longrightarrow> handleTouchEnd c s e = allFingersLifted c (releaseTouches c s e) e"
  by (simp add: handleTouchEnd_def allLifted_def Let_def)

lemma releaseTouches_frame:
  "dragging (releaseTouches c s e) = dragging s"
  "draggingTimeout (releaseTouches c s e) = draggingTimeout s"
  "timers (releaseTouches c s e) = timers s"
proof -
  obtain og rc where loop:
    "touchEndLoop (changedTouches e) (ongoingTouches s, releasedCount s) = (og, rc)"
    by (metis prod.exhaust)
  note rel = releaseTouches_fields [OF loop, of c]
  show "dragging (releaseTouches c s e) = dragging s"
    "draggingTimeout (releaseTouches c s e) = draggingTimeout s"
    "timers (releaseTouches c s e) = timers s"
    by (simp_all add: rel)
qed

lemma draggingOn_step:
  assumes "draggingOn s" and "case ev of TouchEnd e \<Rightarrow> \<not> allLifted c s e | _ \<Rightarrow> True"
  shows "draggingOn (fst (step c s ev)) \<and> (\<forall>b. Click b False \<notin> set (snd (step c s ev)))"
proof (cases ev)
  case (TouchStart e)
  then show ?thesis
    using assms(1) by (simp add: draggingOn_def handleTouchStart_fields)
next
  case (TouchMove sm ls e)
  have "\<forall>b. Click b False \<notin> set (snd (handleTouchMove c sm ls s e))"
    using handleTouchMove_no_click [of c sm ls s e] by (auto simp: isClick_def)
  then show ?thesis
    using assms(1) TouchMove by (simp add: draggingOn_def handleTouchMove_fields)
next
  case (TouchEnd e)
  then have "handleTouchEnd c s e = (releaseTouches c s e, [])"
    using assms(2) by (simp add: handleTouchEnd_not_lifted)
  then show ?thesis
    using assms(1) TouchEnd by (simp add: draggingOn_def releaseTouches_frame)
next
  case (TimerFire h')
  then show ?thesis
    using assms(1) by (simp add: draggingOn_def)
qed

lemma draggingOn_run:
  assumes "draggingOn s" and "noFinalEnd c s evs"
  shows "draggingOn (fst (run c s evs)) \<and> (\<forall>b. Click b False \<notin> set (snd (run c s evs)))"
  using assms
proof (induction evs arbitrary: s)
  case Nil
  then show ?case by simp
next
  case (Cons ev evs)
  have one: "draggingOn (fst (step c s ev)) \<and> (\<forall>b. Click b False \<notin> set (snd (step c s ev)))"
    using Cons.prems by (intro draggingOn_step) simp_all
  then have "draggingOn (fst (run c (fst (step c s ev)) evs))
      \<and> (\<forall>b. Click b False \<notin> set (snd (run c (fst (step c s ev)) evs)))"
    using Cons.prems(2) by (intro Cons.IH) simp_all
  then show ?case
    unfolding run_Cons using one by simp
qed

lemma tapClick_no_left_release:
  "filter (\<lambda>a. a = Click left False) (snd (tapClick c s e)) = []"
  by (auto simp: tapClick_def setTimeout_def Let_def split: option.splits)

lemma allFingersLifted_dragging:
  assumes "dragging s"
  shows "snd (allFingersLifted c s e)
           = Click left False # snd (tapClick c (s\<lparr>isTracking := False, dragging := False\<rparr>) e)"
  using assms by (simp add: allFingersLifted_def Let_def split_beta)

text \<open>
  C2: a touch start that arrives while the drag-release timer \<open>h\<close> of a tap is pending
  emits nothing, cancels the timer (no timer is pending and \<open>h\<close> is not scheduled any
  more) and sets \<open>dragging\<close>. From then on, through any events none of which is a touch end
  that lifts all fingers (timer firings included), \<open>dragging\<close> stays set and no click with
  press = false is emitted; and the touch end that lifts all fingers emits the click
  (left, press = false) exactly once and clears \<open>dragging\<close>.
\<close>

theorem C2_touch_start_during_release_delay:
  fixes c :: MathConsts and s :: GestureState and e :: TouchEvent and h :: nat
  defines "s1 \<equiv> fst (handleTouchStart s e)"
  assumes "reachable c s" and "draggingTimeout s = Some h"
  shows "snd (handleTouchStart s e) = []
         \<and> draggingTimeout s1 = None \<and> timers s1 = [] \<and> dragging s1
         \<and> (\<forall>evs. noFinalEnd c s1 evs \<longrightarrow>
               dragging (fst (run c s1 evs))
               \<and> (\<forall>b. Click b False \<notin> set (snd (run c s1 evs)))
               \<and> (\<forall>e1. allLifted c (fst (run c s1 evs)) e1 \<longrightarrow>
                     length (filter (\<lambda>a. a = Click left False)
                               (snd (handleTouchEnd c (fst (run c s1 evs)) e1))) = 1
                     \<and> \<not> dragging (fst (handleTouchEnd c (fst (run c s1 evs)) e1))))"
proof -
  have inv: "stateInv c s"
    using assms(2) by (rule reachable_stateInv)
  then have "timers s = [(h, TOUCH_TIMEOUT c)]"
    using assms(3) by (simp add: stateInv_def)
  then have on1: "draggingOn s1"
    unfolding s1_def using assms(3) by (simp add: draggingOn_def handleTouchStart_fields)
  have session: "dragging (fst (run c s1 evs))
               \<and> (\<forall>b. Click b False \<notin> set (snd (run c s1 evs)))
               \<and> (\<forall>e1. allLifted c (fst (run c s1 evs)) e1 \<longrightarrow>
                     length (filter (\<lambda>a. a = Click left False)
                               (snd (handleTouchEnd c (fst (run c s1 evs)) e1))) = 1
                     \<and> \<not> dragging (fst (handleTouchEnd c (fst (run c s1 evs)) e1)))"
    if "noFinalEnd c s1 evs" for evs
  proof -
    let ?s2 = "fst (run c s1 evs)"
    have on2: "draggingOn ?s2 \<and> (\<forall>b. Click b False \<notin> set (snd (run c s1 evs)))"
      using on1 that by (rule draggingOn_run)
    have fin: "length (filter (\<lambda>a. a = Click left False) (snd (handleTouchEnd c ?s2 e1))) = 1
        \<and> \<not> dragging (fst (handleTouchEnd c ?s2 e1))"
      if "allLifted c ?s2 e1" for e1
    proof -
      have eq: "handleTouchEnd c ?s2 e1 = allFingersLifted c (releaseTouches c ?s2 e1) e1"
        using that by (rule handleTouchEnd_lifted)
      have "dragging (releaseTouches c ?s2 e1)"
        using on2 by (simp add: releaseTouches_frame draggingOn_def)
      note out = allFingersLifted_dragging [OF this, of c e1]
      show ?thesis
        unfolding eq out
        by (simp add: allFingersLifted_fields tapClick_no_left_release)
    qed
    show ?thesis
      using on2 fin by (simp add: draggingOn_def)
  qed
  show ?thesis
    using on1 session
    by (simp add: draggingOn_def handleTouchStart_fields s1_def [symmetric])
qed

lemma afterTap_eq:
  "afterTap =
     \<lparr>ongoingTouches = [], moved = False, startTimeStamp = 0, lastEndTimeStamp = 50,
      releasedCount = 0, dragging = False, draggingTimeout = Some 1, lastPinchDist = None,
      pinching = False, isTracking = False, timers = [(1, 300)], nextTimer = 2\<rparr>"
  by (simp add: afterTap_def handler_defs example_defs)

lemma reachable_afterTap: "reachable exampleConsts afterTap"
  unfolding afterTap_def by (rule reachable_run) (rule reachable_init)

text \<open>C2, witness: a tap, a second touch start at time 100 while timer 1 is pending, a
  drag by 50 pixels, a firing of the cancelled timer, and the final touch end.\<close>

theorem C2_touch_start_during_release_delay_witness:
  "draggingTimeout afterTap = Some 1
   \<and> dragging (fst (handleTouchStart afterTap (touchEvent [touchAt 1 100 100] 100)))
   \<and> snd (run exampleConsts (fst (handleTouchStart afterTap (touchEvent [touchAt 1 100 100] 100)))
            [TouchMove False None (touchEvent [touchAt 1 150 100] 500), TimerFire 1])
       = [Move (Num 50) (Num 0)]
   \<and> snd (handleTouchEnd exampleConsts
            (fst (run exampleConsts
                   (fst (handleTouchStart afterTap (touchEvent [touchAt 1 100 100] 100)))
                   [TouchMove False None (touchEvent [touchAt 1 150 100] 500), TimerFire 1]))
            (touchEvent [touchAt 1 150 100] 600))
       = [Click left False]
   \<and> \<not> dragging (fst (handleTouchEnd exampleConsts
            (fst (run exampleConsts
                   (fst (handleTouchStart afterTap (touchEvent [touchAt 1 100 100] 100)))
                   [TouchMove False None (touchEvent [touchAt 1 150 100] 500), TimerFire 1]))
            (touchEvent [touchAt 1 150 100] 600)))"
proof -
  let ?s1 = "fst (handleTouchStart afterTap (touchEvent [touchAt 1 100 100] 100))"
  let ?evs = "[TouchMove False None (touchEvent [touchAt 1 150 100] 500), TimerFire 1]"
  let ?e1 = "touchEvent [touchAt 1 150 100] 600"
  have h2: "draggingTimeout afterTap = Some 1"
    by (simp add: afterTap_eq)
  have nf: "noFinalEnd exampleConsts ?s1 ?evs"
    by simp
  have al: "allLifted exampleConsts (fst (run exampleConsts ?s1 ?evs)) ?e1"
    by (simp add: allLifted_def afterTap_eq handler_defs example_defs)
  from C2_touch_start_during_release_delay [OF reachable_afterTap h2, of "touchEvent [touchAt 1 100 100] 100"]
  have "dragging ?s1" and "\<not> dragging (fst (handleTouchEnd exampleConsts
            (fst (run exampleConsts ?s1 ?evs)) ?e1))"
    using nf al by blast+
  then show ?thesis
    using h2 by (simp add: afterTap_eq handler_defs example_defs)
qed

subsection \<open>Pinch against two-finger scroll\<close>


















subsection \<open>The modifier buffer\<close>

text \<open>
  C9: the modifier toggle goes from Release to Active with an empty buffer, from Active
  to Hold if the buffer is non-empty and back to Release otherwise, from Hold to Release
  with the buffer cleared; and while the modifier is not Release, backspace removes the
  last buffered key and escape resets to Release with an empty buffer.
\<close>

theorem C9_modifier_cycle:
  "(modifier s = Release \<longrightarrow> handleModifierState s = s\<lparr>modifier := Active, buffer := []\<rparr>)
   \<and> (modifier s = Active \<and> buffer s \<noteq> [] \<longrightarrow> handleModifierState s = s\<lparr>modifier := Hold\<rparr>)
   \<and> (modifier s = Active \<and> buffer s = [] \<longrightarrow> handleModifierState s = s\<lparr>modifier := Release\<rparr>)
   \<and> (modifier s = Hold \<longrightarrow> handleModifierState s = s\<lparr>modifier := Release, buffer := []\<rparr>)
   \<and> (modifier s \<noteq> Release \<and> toLowerCase eKey = ''backspace''
        \<longrightarrow> handleKeyDown s eKey = (s\<lparr>buffer := butlast (buffer s)\<rparr>, []))
   \<and> (modifier s \<noteq> Release \<and> toLowerCase eKey = ''escape''
        \<longrightarrow> handleKeyDown s eKey = (s\<lparr>modifier := Release, buffer := []\<rparr>, []))"
  by (simp add: handleModifierState_def handleKeyDown_def)

lemma toLowerCase_Backspace: "toLowerCase ''Backspace'' = ''backspace''"
  by code_simp

lemma toLowerCase_Escape: "toLowerCase ''Escape'' = ''escape''"
  by code_simp

text \<open>C9, witness: one concrete state for each of the six transitions.\<close>

theorem C9_modifier_cycle_witness:
  "handleModifierState \<lparr>modifier = Release, buffer = [''a'']\<rparr> = \<lparr>modifier = Active, buffer = []\<rparr>
   \<and> handleModifierState \<lparr>modifier = Active, buffer = [''control'']\<rparr>
       = \<lparr>modifier = Hold, buffer = [''control'']\<rparr>
   \<and> handleModifierState \<lparr>modifier = Active, buffer = []\<rparr> = \<lparr>modifier = Release, buffer = []\<rparr>
   \<and> handleModifierState \<lparr>modifier = Hold, buffer = [''control'']\<rparr>
       = \<lparr>modifier = Release, buffer = []\<rparr>
   \<and> handleKeyDown \<lparr>modifier = Active, buffer = [''control'', ''alt'']\<rparr> ''Backspace''
       = (\<lparr>modifier = Active, buffer = [''control'']\<rparr>, [])
   \<and> handleKeyDown \<lparr>modifier = Hold, buffer = [''control'']\<rparr> ''Escape''
       = (\<lparr>modifier = Release, buffer = []\<rparr>, [])"
  using C9_modifier_cycle [of "\<lparr>modifier = Release, buffer = [''a'']\<rparr>" "''x''"]
    C9_modifier_cycle [of "\<lparr>modifier = Active, buffer = [''control'']\<rparr>" "''x''"]
    C9_modifier_cycle [of "\<lparr>modifier = Active, buffer = []\<rparr>" "''x''"]
    C9_modifier_cycle [of "\<lparr>modifier = Hold, buffer = [''control'']\<rparr>" "''Escape''"]
    C9_modifier_cycle [of "\<lparr>modifier = Active, buffer = [''control'', ''alt'']\<rparr>" "''Backspace''"]
  by (simp add: toLowerCase_Backspace toLowerCase_Escape)

text \<open>
  C10: in Hold, a key delivered to \<^verbatim>\<open>handleModifier\<close> sends exactly one combo, the
  buffered keys followed by the new key, and leaves the modifier and the buffer as they
  were; so the next key in Hold sends a combo with the same prefix.
\<close>

theorem C10_hold_sends_combo:
  "modifier s = Hold \<Longrightarrow> handleModifier s key = (s, [Combo (buffer s @ [key])])"
  by (simp add: handleModifier_def)

text \<open>C10, witness: control and shift buffered, then the key t.\<close>

theorem C10_hold_sends_combo_witness:
  "handleModifier \<lparr>modifier = Hold, buffer = [''control'', ''shift'']\<rparr> ''t''
     = (\<lparr>modifier = Hold, buffer = [''control'', ''shift'']\<rparr>, [Combo [''control'', ''shift'', ''t'']])"
proof -
  have hold: "modifier \<lparr>modifier = Hold, buffer = [''control'', ''shift'']\<rparr> = Hold"
    by simp
  show ?thesis
    using C10_hold_sends_combo [OF hold, of "''t''"] by simp
qed

end
